theory Spec2Isabelle
  imports Complex_Main "HOL-Library.Word" "HOL-Library.Multiset" "HOL-Library.Sublist"
begin

unbundle bit_operations_syntax

section \<open>Data model\<close>

text \<open>
  The structs of \<^verbatim>\<open>main.go\<close> are records with the source's field names. A Go
  \<^verbatim>\<open>string\<close> is a sequence of bytes and \<^verbatim>\<open>len\<close> counts bytes, which is what
  \<^typ>\<open>string\<close> (a list of 8-bit characters) and \<^const>\<open>length\<close> are here.
  \<^verbatim>\<open>uint8\<close> is \<^typ>\<open>8 word\<close>. \<^verbatim>\<open>float64\<close> has two readings. In the exact
  reading it is \<^typ>\<open>real\<close>: the arithmetic is exact, so rounding, overflow to infinity
  and NaN are outside of it; the conversions, the formula of the difference and the
  ranking are studied there. In the second reading it is the type \<open>float64\<close> defined
  below, with rounding, overflow, infinities and NaN; the claims that quantify over every
  \<^verbatim>\<open>float64\<close> value are settled there. The type of the \<^verbatim>\<open>float64\<close> fields is
  therefore a parameter of \<open>LAB\<close> and of \<open>LanguageColorDiff\<close>.
\<close>

record RGB =
  R :: "8 word"
  G :: "8 word"
  B :: "8 word"

record XYZ =
  X :: real
  Y :: real
  Z :: real

record 'f LAB =
  L :: 'f
  A :: 'f
  B :: 'f

record Language =
  Color :: string

record LanguageColor =
  Name :: string
  Color :: "real LAB"

record 'f LanguageColorDiff =
  Name :: string
  Diff :: 'f

section \<open>Hexadecimal decoding (Go's \<^verbatim>\<open>encoding/hex\<close>)\<close>

text \<open>
  \<^verbatim>\<open>hex.DecodeString\<close> belongs to the Go standard library. Its table
  \<^verbatim>\<open>reverseHexTable\<close> maps the bytes \<^verbatim>\<open>0-9\<close>, \<^verbatim>\<open>a-f\<close> and \<^verbatim>\<open>A-F\<close> to their
  values and every other byte to \<^verbatim>\<open>0xff\<close>; \<^verbatim>\<open>Decode\<close> reads two bytes at a time,
  stops at the first byte whose table entry exceeds \<^verbatim>\<open>0x0f\<close>, and reports
  \<^verbatim>\<open>ErrLength\<close> for an odd number of bytes (after checking the last byte).
  The second component of the result is the \<^verbatim>\<open>error\<close>, \<^const>\<open>None\<close> for \<^verbatim>\<open>nil\<close>.
  \<^verbatim>\<open>HexToRGB\<close> calls it on six bytes and discards the bytes when the error is not
  nil, so it observes only whether all six bytes are hexadecimal digits and, if so, the
  three bytes they denote.
\<close>

datatype hex_error = InvalidByteError char | ErrLength

definition reverseHexTable :: "char \<Rightarrow> 8 word" where
  "reverseHexTable c =
     (let n = (of_char c :: nat) in
      if 48 \<le> n \<and> n \<le> 57 then of_nat (n - 48)
      else if 65 \<le> n \<and> n \<le> 70 then of_nat (n - 55)
      else if 97 \<le> n \<and> n \<le> 102 then of_nat (n - 87)
      else 0xff)"

fun Decode :: "8 word list \<Rightarrow> string \<Rightarrow> 8 word list \<times> hex_error option" where
  "Decode dst (p # q # src) =
     (let a = reverseHexTable p; b = reverseHexTable q in
      if a > 0x0f then (dst, Some (InvalidByteError p))
      else if b > 0x0f then (dst, Some (InvalidByteError q))
      else Decode (dst @ [push_bit 4 a OR b]) src)"
| "Decode dst [p] =
     (if reverseHexTable p > 0x0f then (dst, Some (InvalidByteError p))
      else (dst, Some ErrLength))"
| "Decode dst [] = (dst, None)"

definition DecodeString :: "string \<Rightarrow> 8 word list \<times> hex_error option" where
  "DecodeString s = Decode [] s"

section \<open>ColorSpaceConverter\<close>

text \<open>
  A Go \<^verbatim>\<open>error\<close> of \<^verbatim>\<open>HexToRGB\<close> is either made by \<^verbatim>\<open>errors.New\<close> from a
  message or is the error of \<^verbatim>\<open>hex.DecodeString\<close> passed on. The function returns
  the pair \<^verbatim>\<open>(RGB, error)\<close>; \<^verbatim>\<open>RGB{}\<close> is the zero value.
\<close>

datatype error = errors_New string | hex_err hex_error

definition HexToRGB :: "string \<Rightarrow> RGB \<times> error option" where
  "HexToRGB s =
     (if length s \<noteq> 7 then
        (\<lparr>R = 0, G = 0, B = 0\<rparr>, Some (errors_New ''expected hex color of form: #RRGGBB''))
      else
        (case DecodeString (drop 1 s) of
           (b, Some err) \<Rightarrow> (\<lparr>R = 0, G = 0, B = 0\<rparr>, Some (hex_err err))
         | (b, None) \<Rightarrow>
             if length b \<noteq> 3 then
               (\<lparr>R = 0, G = 0, B = 0\<rparr>, Some (errors_New ''decoded hex length != 3''))
             else (\<lparr>R = b ! 0, G = b ! 1, B = b ! 2\<rparr>, None)))"

text \<open>
  The two error kinds of the specification: \<^verbatim>\<open>InvalidFormat\<close> is the error of the
  length check, \<^verbatim>\<open>InvalidHex\<close> is a decoding error or the error of the check on the
  number of decoded bytes.
\<close>

definition InvalidFormat :: "error option \<Rightarrow> bool" where
  "InvalidFormat e = (e = Some (errors_New ''expected hex color of form: #RRGGBB''))"

definition InvalidHex :: "error option \<Rightarrow> bool" where
  "InvalidHex e =
     (case e of
        Some (hex_err x) \<Rightarrow> True
      | Some (errors_New m) \<Rightarrow> m = ''decoded hex length != 3''
      | None \<Rightarrow> False)"

text \<open>The hexadecimal digits, and the byte two of them denote.\<close>

definition hex_digit :: "char \<Rightarrow> bool" where
  "hex_digit c = (c \<in> set ''0123456789abcdefABCDEF'')"

definition hex_byte :: "char \<Rightarrow> char \<Rightarrow> 8 word" where
  "hex_byte p q = push_bit 4 (reverseHexTable p) OR reverseHexTable q"

text \<open>
  \<^verbatim>\<open>math.Pow(x, y)\<close> is called with a positive base only (each call is guarded by
  \<^verbatim>\<open>n > 0.04045\<close> or \<^verbatim>\<open>n > 0.008856\<close>), where it is the real power \<open>x powr y\<close>.
  The two closures called \<^verbatim>\<open>Norm\<close> carry the name of their function.
\<close>

definition RGBToXYZ_Norm :: "real \<Rightarrow> real" where
  "RGBToXYZ_Norm n = (if n > 0.04045 then ((n + 0.055) / 1.055) powr 2.4 else n / 12.92)"

definition RGBToXYZ :: "RGB \<Rightarrow> XYZ" where
  "RGBToXYZ c =
     (let vR = RGBToXYZ_Norm (real (unat (R c)) / 255) * 100;
          vG = RGBToXYZ_Norm (real (unat (G c)) / 255) * 100;
          vB = RGBToXYZ_Norm (real (unat (RGB.B c)) / 255) * 100
      in \<lparr>X = vR * 0.4124 + vG * 0.3576 + vB * 0.1805,
          Y = vR * 0.2126 + vG * 0.7152 + vB * 0.0722,
          Z = vR * 0.0193 + vG * 0.1192 + vB * 0.9505\<rparr>)"

definition rX :: real where "rX = 93.369"
definition rY :: real where "rY = 100.000"
definition rZ :: real where "rZ = 98.636"

definition XYZToLAB_Norm :: "real \<Rightarrow> real" where
  "XYZToLAB_Norm n = (if n > 0.008856 then n powr (1.0 / 3.0) else (7.787 * n) + (16.0 / 116.0))"

definition XYZToLAB :: "XYZ \<Rightarrow> real LAB" where
  "XYZToLAB c =
     (let vX = XYZToLAB_Norm (X c / rX);
          vY = XYZToLAB_Norm (Y c / rY);
          vZ = XYZToLAB_Norm (Z c / rZ)
      in \<lparr>L = 116 * vY - 16, A = 500 * (vX - vY), B = 200 * (vY - vZ)\<rparr>)"

section \<open>PerceptualDiffEngine\<close>

definition wL :: real where "wL = 1.0"
definition wC :: real where "wC = 1.0"
definition wH :: real where "wH = 1.0"

text \<open>The assignments to \<^verbatim>\<open>xDH\<close>, \<^verbatim>\<open>xDL\<close> and \<^verbatim>\<open>xDC\<close> are successive bindings.\<close>

definition CIE94Diff :: "real LAB \<Rightarrow> real LAB \<Rightarrow> real" where
  "CIE94Diff c1 c2 =
     (let xC1 = sqrt (A c1 * A c1 + LAB.B c1 * LAB.B c1);
          xC2 = sqrt (A c2 * A c2 + LAB.B c2 * LAB.B c2);
          xDL = L c2 - L c1;
          xDC = xC2 - xC1;
          xDE = sqrt (((L c1 - L c2) * (L c1 - L c2)) +
                      ((A c1 - A c2) * (A c1 - A c2)) +
                      ((LAB.B c1 - LAB.B c2) * (LAB.B c1 - LAB.B c2)));
          xDH = (xDE * xDE) - (xDL * xDL) - (xDC * xDC);
          xDH = (if xDH > 0 then sqrt xDH else 0);
          xSC = 1 + (0.045 * xC1);
          xSH = 1 + (0.015 * xC1);
          xDL = xDL / wL;
          xDC = xDC / (wC * xSC);
          xDH = xDH / (wH * xSH)
      in sqrt (xDL * xDL + xDC * xDC + xDH * xDH))"

section \<open>float64 with infinities and NaN\<close>

text \<open>
  The claims that speak of every \<^verbatim>\<open>float64\<close> value need the values that are not
  real numbers. A \<^verbatim>\<open>float64\<close> is a finite number, negative zero, an infinity or NaN;
  \<open>Finite 0\<close> is positive zero. Every arithmetic operation computes the exact real result
  and rounds it once (Go on amd64; no fused multiply-add): \<open>round64\<close> rounds to the nearest
  number with a 53-bit significand and an exponent of at least -1022 (so subnormals are
  included), ties to even, and \<open>of_real64\<close> turns a rounded magnitude of \<open>2 ^ 1024\<close> or more
  into an infinity and a negative result rounded to zero into negative zero. The special
  cases follow IEEE 754: NaN is absorbing, \<open>Inf - Inf\<close>, \<open>Inf * 0\<close>, \<open>0 / 0\<close>,
  \<open>Inf / Inf\<close> and the square root of a negative number are NaN, a comparison with NaN
  is false, and both zeros compare equal. \<^verbatim>\<open>math.Sqrt\<close> is correctly rounded. A constant
  of the source is converted to the nearest \<^verbatim>\<open>float64\<close>. \<open>Finite\<close> can hold any real
  number; the theorems hold for all of them, the representable ones included.
\<close>

datatype float64 = Finite real | NegZero | PosInf | NegInf | NaN

definition rne :: "real \<Rightarrow> int" where
  "rne y =
     (let f = \<lfloor>y\<rfloor> in
      if y - of_int f < 1 / 2 then f
      else if y - of_int f > 1 / 2 then f + 1
      else if even f then f else f + 1)"

definition ulp64 :: "real \<Rightarrow> real" where
  "ulp64 x = 2 powr (of_int (max \<lfloor>log 2 \<bar>x\<bar>\<rfloor> (- 1022)) - 52)"

definition round64 :: "real \<Rightarrow> real" where
  "round64 x = (if x = 0 then 0 else sgn x * (ulp64 x * of_int (rne (\<bar>x\<bar> / ulp64 x))))"

definition overflow64 :: real where
  "overflow64 = 2 ^ 1024"

definition of_real64 :: "real \<Rightarrow> float64" where
  "of_real64 r =
     (let q = round64 r in
      if overflow64 \<le> q then PosInf
      else if q \<le> - overflow64 then NegInf
      else if q = 0 \<and> r < 0 then NegZero
      else Finite q)"

definition f64_const :: "real \<Rightarrow> float64" where
  "f64_const r = of_real64 r"

fun val64 :: "float64 \<Rightarrow> real" where
  "val64 (Finite r) = r"
| "val64 NegZero = 0"
| "val64 PosInf = 0"
| "val64 NegInf = 0"
| "val64 NaN = 0"

fun is_finite :: "float64 \<Rightarrow> bool" where
  "is_finite (Finite r) = True"
| "is_finite NegZero = True"
| "is_finite PosInf = False"
| "is_finite NegInf = False"
| "is_finite NaN = False"

fun is_inf :: "float64 \<Rightarrow> bool" where
  "is_inf PosInf = True"
| "is_inf NegInf = True"
| "is_inf (Finite r) = False"
| "is_inf NegZero = False"
| "is_inf NaN = False"

fun is_zero :: "float64 \<Rightarrow> bool" where
  "is_zero (Finite r) = (r = 0)"
| "is_zero NegZero = True"
| "is_zero PosInf = False"
| "is_zero NegInf = False"
| "is_zero NaN = False"

fun sign_bit :: "float64 \<Rightarrow> bool" where
  "sign_bit (Finite r) = (r < 0)"
| "sign_bit NegZero = True"
| "sign_bit PosInf = False"
| "sign_bit NegInf = True"
| "sign_bit NaN = False"

definition zero_of :: "bool \<Rightarrow> float64" where
  "zero_of negative = (if negative then NegZero else Finite 0)"

definition inf_of :: "bool \<Rightarrow> float64" where
  "inf_of negative = (if negative then NegInf else PosInf)"

fun f64_neg :: "float64 \<Rightarrow> float64" where
  "f64_neg (Finite r) = (if r = 0 then NegZero else Finite (- r))"
| "f64_neg NegZero = Finite 0"
| "f64_neg PosInf = NegInf"
| "f64_neg NegInf = PosInf"
| "f64_neg NaN = NaN"

definition f64_add :: "float64 \<Rightarrow> float64 \<Rightarrow> float64" where
  "f64_add x y =
     (if x = NaN \<or> y = NaN then NaN
      else if is_inf x then (if is_inf y \<and> sign_bit x \<noteq> sign_bit y then NaN else x)
      else if is_inf y then y
      else let r = val64 x + val64 y in
           if r = 0 then zero_of (sign_bit x \<and> sign_bit y) else of_real64 r)"

definition f64_sub :: "float64 \<Rightarrow> float64 \<Rightarrow> float64" where
  "f64_sub x y = f64_add x (f64_neg y)"

definition f64_mul :: "float64 \<Rightarrow> float64 \<Rightarrow> float64" where
  "f64_mul x y =
     (if x = NaN \<or> y = NaN then NaN
      else if is_inf x \<or> is_inf y then
        (if is_zero x \<or> is_zero y then NaN else inf_of (sign_bit x \<noteq> sign_bit y))
      else let r = val64 x * val64 y in
           if r = 0 then zero_of (sign_bit x \<noteq> sign_bit y) else of_real64 r)"

definition f64_div :: "float64 \<Rightarrow> float64 \<Rightarrow> float64" where
  "f64_div x y =
     (if x = NaN \<or> y = NaN then NaN
      else if is_inf x then (if is_inf y then NaN else inf_of (sign_bit x \<noteq> sign_bit y))
      else if is_inf y then zero_of (sign_bit x \<noteq> sign_bit y)
      else if is_zero y then (if is_zero x then NaN else inf_of (sign_bit x \<noteq> sign_bit y))
      else if is_zero x then zero_of (sign_bit x \<noteq> sign_bit y)
      else of_real64 (val64 x / val64 y))"

fun math_Sqrt :: "float64 \<Rightarrow> float64" where
  "math_Sqrt (Finite r) = (if r < 0 then NaN else if r = 0 then Finite 0 else of_real64 (sqrt r))"
| "math_Sqrt NegZero = NegZero"
| "math_Sqrt PosInf = PosInf"
| "math_Sqrt NegInf = NaN"
| "math_Sqrt NaN = NaN"

definition f64_lt :: "float64 \<Rightarrow> float64 \<Rightarrow> bool" where
  "f64_lt x y =
     (x \<noteq> NaN \<and> y \<noteq> NaN \<and> x \<noteq> PosInf \<and> y \<noteq> NegInf \<and>
      (x = NegInf \<or> y = PosInf \<or> val64 x < val64 y))"

definition f64_gt :: "float64 \<Rightarrow> float64 \<Rightarrow> bool" where
  "f64_gt x y = f64_lt y x"

definition f64_ge :: "float64 \<Rightarrow> float64 \<Rightarrow> bool" where
  "f64_ge x y =
     (x \<noteq> NaN \<and> y \<noteq> NaN \<and>
      (x = PosInf \<or> y = NegInf \<or> (x \<noteq> NegInf \<and> y \<noteq> PosInf \<and> val64 x \<ge> val64 y)))"

definition f64_eq :: "float64 \<Rightarrow> float64 \<Rightarrow> bool" where
  "f64_eq x y =
     (x \<noteq> NaN \<and> y \<noteq> NaN \<and>
      (if is_inf x \<or> is_inf y then x = y else val64 x = val64 y))"

text \<open>
  \<^verbatim>\<open>CIE94Diff\<close> once more, every operation of lines 307 to 331 in \<^verbatim>\<open>float64\<close>
  arithmetic. The untyped constants \<^verbatim>\<open>wL\<close>, \<^verbatim>\<open>wC\<close>, \<^verbatim>\<open>wH\<close> and the literals are
  converted where they meet a \<^verbatim>\<open>float64\<close> operand.
\<close>

definition CIE94Diff_float64 :: "float64 LAB \<Rightarrow> float64 LAB \<Rightarrow> float64" where
  "CIE94Diff_float64 c1 c2 =
     (let xC1 = math_Sqrt (f64_add (f64_mul (A c1) (A c1)) (f64_mul (LAB.B c1) (LAB.B c1)));
          xC2 = math_Sqrt (f64_add (f64_mul (A c2) (A c2)) (f64_mul (LAB.B c2) (LAB.B c2)));
          xDL = f64_sub (L c2) (L c1);
          xDC = f64_sub xC2 xC1;
          xDE = math_Sqrt (f64_add (f64_add
                  (f64_mul (f64_sub (L c1) (L c2)) (f64_sub (L c1) (L c2)))
                  (f64_mul (f64_sub (A c1) (A c2)) (f64_sub (A c1) (A c2))))
                  (f64_mul (f64_sub (LAB.B c1) (LAB.B c2)) (f64_sub (LAB.B c1) (LAB.B c2))));
          xDH = f64_sub (f64_sub (f64_mul xDE xDE) (f64_mul xDL xDL)) (f64_mul xDC xDC);
          xDH = (if f64_gt xDH (f64_const 0) then math_Sqrt xDH else f64_const 0);
          xSC = f64_add (f64_const 1) (f64_mul (f64_const 0.045) xC1);
          xSH = f64_add (f64_const 1) (f64_mul (f64_const 0.015) xC1);
          xDL = f64_div xDL (f64_const wL);
          xDC = f64_div xDC (f64_mul (f64_const wC) xSC);
          xDH = f64_div xDH (f64_mul (f64_const wH) xSH)
      in math_Sqrt (f64_add (f64_add (f64_mul xDL xDL) (f64_mul xDC xDC)) (f64_mul xDH xDH)))"

text \<open>
  The chroma of a color as \<^verbatim>\<open>CIE94Diff\<close> computes it, and the ranges of values the
  proofs follow through the computation: finite of magnitude at most \<open>2 ^ k\<close>, the same
  and not negative, the same and at least 1, not negative or \<open>+Inf\<close>, at least 1 or
  \<open>+Inf\<close>.
\<close>

definition chroma64 :: "float64 LAB \<Rightarrow> float64" where
  "chroma64 c = math_Sqrt (f64_add (f64_mul (A c) (A c)) (f64_mul (LAB.B c) (LAB.B c)))"

definition bnd :: "nat \<Rightarrow> float64 \<Rightarrow> bool" where
  "bnd k x = (is_finite x \<and> \<bar>val64 x\<bar> \<le> 2 ^ k)"

definition pbnd :: "nat \<Rightarrow> float64 \<Rightarrow> bool" where
  "pbnd k x = (\<exists>q. x = Finite q \<and> 0 \<le> q \<and> q \<le> 2 ^ k)"

definition dvs :: "nat \<Rightarrow> float64 \<Rightarrow> bool" where
  "dvs k x = (\<exists>q. x = Finite q \<and> 1 \<le> q \<and> q \<le> 2 ^ k)"

definition nonneg64 :: "float64 \<Rightarrow> bool" where
  "nonneg64 x = (x = PosInf \<or> (\<exists>q. 0 \<le> q \<and> x = Finite q))"

definition ge_one64 :: "float64 \<Rightarrow> bool" where
  "ge_one64 x = (x = PosInf \<or> (\<exists>q. 1 \<le> q \<and> x = Finite q))"

section \<open>PairwiseRanker and ReportFilter: the loops of \<^verbatim>\<open>main\<close>\<close>

text \<open>
  The Go map \<^verbatim>\<open>languages\<close> is given by its entries in the order in which
  \<^verbatim>\<open>range\<close> visits them: a list of pairs with distinct keys. Go leaves that order
  open, so the theorems hold for every such list. Each \<^verbatim>\<open>for\<close> loop is a recursive
  function over the rest of the range whose accumulator is the variable the loop appends
  to; \<^verbatim>\<open>continue\<close> is the recursive call with the accumulator unchanged and
  \<^verbatim>\<open>break\<close> returns the accumulator.
\<close>

fun tfc_loop :: "LanguageColor list \<Rightarrow> (string \<times> Language) list \<Rightarrow> LanguageColor list" where
  "tfc_loop tfc [] = tfc"
| "tfc_loop tfc ((lang, data) # languages) =
     (case HexToRGB (Language.Color data) of
        (rgb, Some err) \<Rightarrow> tfc_loop tfc languages
      | (rgb, None) \<Rightarrow>
          tfc_loop (tfc @ [\<lparr>LanguageColor.Name = lang, Color = XYZToLAB (RGBToXYZ rgb)\<rparr>])
            languages)"

fun diffs_loop ::
  "LanguageColor \<Rightarrow> real LanguageColorDiff list \<Rightarrow> LanguageColor list \<Rightarrow>
   real LanguageColorDiff list" where
  "diffs_loop lang dfs [] = dfs"
| "diffs_loop lang dfs (compLang # tfc) =
     (if LanguageColor.Name lang = LanguageColor.Name compLang then diffs_loop lang dfs tfc
      else diffs_loop lang
             (dfs @ [\<lparr>LanguageColorDiff.Name = LanguageColor.Name compLang,
                        Diff = CIE94Diff (LanguageColor.Color lang) (LanguageColor.Color compLang)\<rparr>])
             tfc)"

text \<open>
  \<^verbatim>\<open>sort.Slice(x, less)\<close> belongs to the Go standard library. It is a parameter
  \<open>srt\<close> of the model that takes the slice and the comparison; the closure of lines 81
  to 83, \<^verbatim>\<open>diffs[i].Diff < diffs[j].Diff\<close>, is passed to it as a comparison of two
  entries. \<open>sort_Slice_contract\<close> is what the library documents for every slice and
  every comparison: the result is a rearrangement of the slice (the sort only swaps
  elements), and when \<^verbatim>\<open>less\<close> is the strict weak ordering the documentation asks
  for (irreflexive, transitive, and transitive in its negation), no element of the
  result is followed by one that is \<^verbatim>\<open>less\<close>. The sort is not stable, so the contract
  says nothing on the order of elements neither of which is \<^verbatim>\<open>less\<close> than the other.
\<close>

definition strict_weak_order :: "('a \<Rightarrow> 'a \<Rightarrow> bool) \<Rightarrow> bool" where
  "strict_weak_order lessf =
     ((\<forall>a. \<not> lessf a a) \<and>
      (\<forall>a b c. lessf a b \<and> lessf b c \<longrightarrow> lessf a c) \<and>
      (\<forall>a b c. \<not> lessf a b \<and> \<not> lessf b c \<longrightarrow> \<not> lessf a c))"

definition sort_Slice_contract :: "('a list \<Rightarrow> ('a \<Rightarrow> 'a \<Rightarrow> bool) \<Rightarrow> 'a list) \<Rightarrow> bool" where
  "sort_Slice_contract srt =
     (\<forall>x lessf. mset (srt x lessf) = mset x \<and>
        (strict_weak_order lessf \<longrightarrow> sorted_wrt (\<lambda>a b. \<not> lessf b a) (srt x lessf)))"

fun tfcd_loop ::
  "(real LanguageColorDiff list \<Rightarrow> (real LanguageColorDiff \<Rightarrow> real LanguageColorDiff \<Rightarrow> bool) \<Rightarrow>
      real LanguageColorDiff list) \<Rightarrow>
   LanguageColor list \<Rightarrow> (string \<rightharpoonup> real LanguageColorDiff list) \<Rightarrow> LanguageColor list \<Rightarrow>
   (string \<rightharpoonup> real LanguageColorDiff list)" where
  "tfcd_loop srt tfc tfcd [] = tfcd"
| "tfcd_loop srt tfc tfcd (lang # rest) =
     tfcd_loop srt tfc
       (tfcd(LanguageColor.Name lang \<mapsto>
          srt (diffs_loop lang [] tfc) (\<lambda>i j. Diff i < Diff j)))
       rest"

text \<open>Lines 68 to 86: the ranking of a list of named LAB colors.\<close>

definition rank ::
  "(real LanguageColorDiff list \<Rightarrow> (real LanguageColorDiff \<Rightarrow> real LanguageColorDiff \<Rightarrow> bool) \<Rightarrow>
      real LanguageColorDiff list) \<Rightarrow>
   LanguageColor list \<Rightarrow> (string \<rightharpoonup> real LanguageColorDiff list)" where
  "rank srt tfc = tfcd_loop srt tfc Map.empty tfc"

text \<open>Lines 56 to 86: from the configuration to the ranking.\<close>

definition ranking_of ::
  "(real LanguageColorDiff list \<Rightarrow> (real LanguageColorDiff \<Rightarrow> real LanguageColorDiff \<Rightarrow> bool) \<Rightarrow>
      real LanguageColorDiff list) \<Rightarrow>
   (string \<times> Language) list \<Rightarrow> (string \<rightharpoonup> real LanguageColorDiff list)" where
  "ranking_of srt languages = rank srt (tfc_loop [] languages)"

text \<open>A list is ascending by \<^verbatim>\<open>Diff\<close> when no entry is followed by one of smaller \<^verbatim>\<open>Diff\<close>.\<close>

definition ascending :: "real LanguageColorDiff list \<Rightarrow> bool" where
  "ascending dfs = sorted_wrt (\<lambda>a b. \<not> Diff b < Diff a) dfs"

text \<open>
  Lines 135 to 147, over \<^verbatim>\<open>float64\<close> values: \<^verbatim>\<open>flag.Float64Var\<close> accepts every
  \<^verbatim>\<open>float64\<close> as threshold, infinities and NaN included, and the test of the loop is
  \<^verbatim>\<open>diff.Diff >= diffThreshold\<close>. Indexing the map \<^verbatim>\<open>tfcd\<close> with a missing key gives
  the nil slice. What is printed for a language is abstracted to the pair of its name and
  its filtered list; a language whose filtered list is empty prints nothing.
\<close>

fun filtered_loop ::
  "float64 \<Rightarrow> float64 LanguageColorDiff list \<Rightarrow> float64 LanguageColorDiff list \<Rightarrow>
   float64 LanguageColorDiff list" where
  "filtered_loop diffThreshold filtered [] = filtered"
| "filtered_loop diffThreshold filtered (d # rest) =
     (if f64_ge (Diff d) diffThreshold then filtered
      else filtered_loop diffThreshold (filtered @ [d]) rest)"

definition index_tfcd :: "(string \<rightharpoonup> 'a list) \<Rightarrow> string \<Rightarrow> 'a list" where
  "index_tfcd tfcd lang = (case tfcd lang of None \<Rightarrow> [] | Some dfs \<Rightarrow> dfs)"

fun render ::
  "float64 \<Rightarrow> (string \<rightharpoonup> float64 LanguageColorDiff list) \<Rightarrow> string list \<Rightarrow>
   (string \<times> float64 LanguageColorDiff list) list" where
  "render diffThreshold tfcd [] = []"
| "render diffThreshold tfcd (lang # langs) =
     (let filtered = filtered_loop diffThreshold [] (index_tfcd tfcd lang) in
      if length filtered = 0 then render diffThreshold tfcd langs
      else (lang, filtered) # render diffThreshold tfcd langs)"

definition ascending64 :: "float64 LanguageColorDiff list \<Rightarrow> bool" where
  "ascending64 dfs = sorted_wrt (\<lambda>a b. \<not> f64_lt (Diff b) (Diff a)) dfs"

text \<open>An entry of the configuration parses when \<^verbatim>\<open>HexToRGB\<close> returns a nil error for its color.\<close>

definition parses :: "Language \<Rightarrow> bool" where
  "parses data = (snd (HexToRGB (Language.Color data)) = None)"

text \<open>An insertion sort, one function that keeps the contract of \<^verbatim>\<open>sort.Slice\<close>.\<close>

fun insert_less :: "('a \<Rightarrow> 'a \<Rightarrow> bool) \<Rightarrow> 'a \<Rightarrow> 'a list \<Rightarrow> 'a list" where
  "insert_less lessf x [] = [x]"
| "insert_less lessf x (y # ys) = (if lessf x y then x # y # ys else y # insert_less lessf x ys)"

fun insertion_sort :: "'a list \<Rightarrow> ('a \<Rightarrow> 'a \<Rightarrow> bool) \<Rightarrow> 'a list" where
  "insertion_sort [] lessf = []"
| "insertion_sort (x # xs) lessf = insert_less lessf x (insertion_sort xs lessf)"

section \<open>The conversions and the difference as the specification words them\<close>

text \<open>
  The following definitions are written from the specification (sections 4.1 and 4.2),
  not from the code; the theorems below compare them with the functions of the source.
\<close>

definition spec_gamma :: "real \<Rightarrow> real" where
  "spec_gamma n = (if n > 0.04045 then ((n + 0.055) / 1.055) powr 2.4 else n / 12.92)"

definition spec_rgbToXYZ :: "RGB \<Rightarrow> XYZ" where
  "spec_rgbToXYZ c =
     (let r = 100 * spec_gamma (real (unat (R c)) / 255);
          g = 100 * spec_gamma (real (unat (G c)) / 255);
          b = 100 * spec_gamma (real (unat (RGB.B c)) / 255)
      in \<lparr>X = 0.4124 * r + 0.3576 * g + 0.1805 * b,
          Y = 0.2126 * r + 0.7152 * g + 0.0722 * b,
          Z = 0.0193 * r + 0.1192 * g + 0.9505 * b\<rparr>)"

definition spec_f :: "real \<Rightarrow> real" where
  "spec_f n = (if n > 0.008856 then n powr (1 / 3) else 7.787 * n + 16 / 116)"

definition spec_xyzToLAB :: "XYZ \<Rightarrow> real LAB" where
  "spec_xyzToLAB c =
     \<lparr>L = 116 * spec_f (Y c / 100.000) - 16,
      A = 500 * (spec_f (X c / 93.369) - spec_f (Y c / 100.000)),
      B = 200 * (spec_f (Y c / 100.000) - spec_f (Z c / 98.636))\<rparr>"

definition kL :: real where "kL = 1"
definition kC :: real where "kC = 1"
definition kH :: real where "kH = 1"

definition spec_cie94 :: "real LAB \<Rightarrow> real LAB \<Rightarrow> real" where
  "spec_cie94 c1 c2 =
     (let chroma1 = sqrt ((A c1)\<^sup>2 + (LAB.B c1)\<^sup>2);
          chroma2 = sqrt ((A c2)\<^sup>2 + (LAB.B c2)\<^sup>2);
          dL = L c2 - L c1;
          dC = chroma2 - chroma1;
          dE = sqrt ((L c1 - L c2)\<^sup>2 + (A c1 - A c2)\<^sup>2 + (LAB.B c1 - LAB.B c2)\<^sup>2);
          dH2 = dE\<^sup>2 - dL\<^sup>2 - dC\<^sup>2;
          dH = (if dH2 > 0 then sqrt dH2 else 0);
          SC = 1 + 0.045 * chroma1;
          SH = 1 + 0.015 * chroma1
      in sqrt ((dL / kL)\<^sup>2 + (dC / (kC * SC))\<^sup>2 + (dH / (kH * SH))\<^sup>2))"

section \<open>Parsing hexadecimal colors\<close>

lemma reverseHexTable_digits:
  "map reverseHexTable ''0123456789abcdefABCDEF'' =
     [0, 1, 2, 3, 4, 5, 6, 7, 8, 9, 10, 11, 12, 13, 14, 15, 10, 11, 12, 13, 14, 15]"
  by (simp add: reverseHexTable_def)

lemma hex_digit_table1: "hex_digit c \<Longrightarrow> reverseHexTable c \<le> 0x0f"
proof -
  assume "hex_digit c"
  then have "c \<in> set ''0123456789abcdefABCDEF''" unfolding hex_digit_def .
  then have "reverseHexTable c \<in> reverseHexTable ` set ''0123456789abcdefABCDEF''"
    by (rule imageI)
  then have "reverseHexTable c \<in> set (map reverseHexTable ''0123456789abcdefABCDEF'')"
    by (simp only: set_map)
  then show ?thesis unfolding reverseHexTable_digits by auto
qed

lemma of_char_image_mem:
  "(of_char c :: nat) \<in> of_char ` set xs \<Longrightarrow> c \<in> set xs"
  by auto

lemma hex_codes:
  "(of_char ` set ''0123456789abcdefABCDEF'' :: nat set) =
     {48, 49, 50, 51, 52, 53, 54, 55, 56, 57, 97, 98, 99, 100, 101, 102, 65, 66, 67, 68, 69, 70}"
  by simp

lemma hex_ranges:
  "(48 \<le> n \<and> n \<le> 57) \<or> (65 \<le> n \<and> n \<le> 70) \<or> (97 \<le> n \<and> n \<le> 102) \<Longrightarrow>
   (n::nat) \<in> {48, 49, 50, 51, 52, 53, 54, 55, 56, 57, 97, 98, 99, 100, 101, 102, 65, 66, 67, 68, 69, 70}"
  unfolding insert_iff empty_iff by presburger

lemma hex_digit_table2: "reverseHexTable c \<le> 0x0f \<Longrightarrow> hex_digit c"
proof -
  assume a: "reverseHexTable c \<le> 0x0f"
  let ?n = "of_char c :: nat"
  have "(48 \<le> ?n \<and> ?n \<le> 57) \<or> (65 \<le> ?n \<and> ?n \<le> 70) \<or> (97 \<le> ?n \<and> ?n \<le> 102)"
    using a by (simp add: reverseHexTable_def Let_def split: if_splits)
  then have "?n \<in> of_char ` set ''0123456789abcdefABCDEF''"
    unfolding hex_codes by (rule hex_ranges)
  then show ?thesis
    unfolding hex_digit_def by (rule of_char_image_mem)
qed

lemma hex_digit_iff: "hex_digit c \<longleftrightarrow> \<not> reverseHexTable c > 0x0f"
  using hex_digit_table1 hex_digit_table2 by (auto simp: not_less)

lemma Decode_snd_None:
  "snd (Decode dst src) = None \<longleftrightarrow> even (length src) \<and> (\<forall>c \<in> set src. hex_digit c)"
  by (induction dst src rule: Decode.induct) (auto simp: Let_def hex_digit_iff)

lemma Decode_length:
  "snd (Decode dst src) = None \<Longrightarrow> length (fst (Decode dst src)) = length dst + length src div 2"
  by (induction dst src rule: Decode.induct) (auto simp: Let_def split: if_splits)

lemma Decode_six:
  assumes "\<forall>c \<in> set [c1, c2, c3, c4, c5, c6]. hex_digit c"
  shows "Decode [] [c1, c2, c3, c4, c5, c6] =
           ([hex_byte c1 c2, hex_byte c3 c4, hex_byte c5 c6], None)"
  using assms by (simp add: Let_def hex_digit_iff hex_byte_def)

lemma HexToRGB_success_iff:
  "snd (HexToRGB s) = None \<longleftrightarrow> length s = 7 \<and> (\<forall>c \<in> set (drop 1 s). hex_digit c)"
proof (cases "length s = 7")
  case False
  then show ?thesis by (simp add: HexToRGB_def)
next
  case True
  obtain b e where d: "DecodeString (drop 1 s) = (b, e)" by (cases "DecodeString (drop 1 s)")
  have ev: "even (length (drop 1 s))" using True by simp
  show ?thesis
  proof (cases e)
    case None
    then have n: "snd (Decode [] (drop 1 s)) = None" using d by (simp add: DecodeString_def)
    then have "length b = 3"
      using Decode_length[of "[]" "drop 1 s"] d True by (simp add: DecodeString_def)
    moreover have "\<forall>c \<in> set (drop 1 s). hex_digit c"
      using n unfolding Decode_snd_None by blast
    ultimately show ?thesis using True d None
      by (simp add: HexToRGB_def)
  next
    case (Some x)
    then have "snd (Decode [] (drop 1 s)) \<noteq> None" using d by (simp add: DecodeString_def)
    then have "\<not> (\<forall>c \<in> set (drop 1 s). hex_digit c)" using ev unfolding Decode_snd_None by blast
    moreover have "snd (HexToRGB s) \<noteq> None" using d Some True by (simp add: HexToRGB_def)
    ultimately show ?thesis by blast
  qed
qed

lemma HexToRGB_failure_zero:
  "snd (HexToRGB s) \<noteq> None \<Longrightarrow> fst (HexToRGB s) = \<lparr>R = 0, G = 0, B = 0\<rparr>"
  by (auto simp: HexToRGB_def split: prod.splits option.splits if_splits)

lemma HexToRGB_errors:
  "(length s \<noteq> 7 \<longrightarrow> InvalidFormat (snd (HexToRGB s))) \<and>
   (length s = 7 \<and> \<not> (\<forall>c \<in> set (drop 1 s). hex_digit c) \<longrightarrow> InvalidHex (snd (HexToRGB s)))"
proof (intro conjI impI)
  assume "length s \<noteq> 7"
  then show "InvalidFormat (snd (HexToRGB s))" by (simp add: HexToRGB_def InvalidFormat_def)
next
  assume a: "length s = 7 \<and> \<not> (\<forall>c \<in> set (drop 1 s). hex_digit c)"
  then have "snd (HexToRGB s) \<noteq> None" using HexToRGB_success_iff by blast
  then show "InvalidHex (snd (HexToRGB s))" using a
    by (auto simp: HexToRGB_def InvalidHex_def split: prod.splits option.splits if_splits)
qed

lemma HexToRGB_value:
  assumes "\<forall>c \<in> set [c1, c2, c3, c4, c5, c6]. hex_digit c"
  shows "HexToRGB [c0, c1, c2, c3, c4, c5, c6] =
     (\<lparr>R = hex_byte c1 c2, G = hex_byte c3 c4, B = hex_byte c5 c6\<rparr>, None)"
  using Decode_six[OF assms] by (simp add: HexToRGB_def DecodeString_def)

text \<open>The examples of the specification, section 8.\<close>

lemma HexToRGB_examples:
  "HexToRGB ''#FF0000'' = (\<lparr>R = 255, G = 0, B = 0\<rparr>, None)"
  "InvalidFormat (snd (HexToRGB ''FF0000''))"
  "InvalidHex (snd (HexToRGB ''#GG0000''))"
  by (simp_all add: HexToRGB_def DecodeString_def reverseHexTable_def Let_def
      InvalidFormat_def InvalidHex_def)

section \<open>The loops of \<^verbatim>\<open>main\<close> in closed form\<close>

lemma tfc_loop_eq:
  "tfc_loop tfc languages =
     tfc @ map (\<lambda>(lang, data). \<lparr>LanguageColor.Name = lang,
                   Color = XYZToLAB (RGBToXYZ (fst (HexToRGB (Language.Color data))))\<rparr>)
             (filter (\<lambda>(lang, data). snd (HexToRGB (Language.Color data)) = None) languages)"
  by (induction tfc languages rule: tfc_loop.induct) (auto split: prod.splits option.splits)

lemma diffs_loop_eq:
  "diffs_loop lang dfs tfc =
     dfs @ map (\<lambda>c. \<lparr>LanguageColorDiff.Name = LanguageColor.Name c,
                     Diff = CIE94Diff (LanguageColor.Color lang) (LanguageColor.Color c)\<rparr>)
             (filter (\<lambda>c. LanguageColor.Name c \<noteq> LanguageColor.Name lang) tfc)"
  by (induction lang dfs tfc rule: diffs_loop.induct) auto

lemma tfcd_loop_other:
  "n \<notin> LanguageColor.Name ` set rest \<Longrightarrow> tfcd_loop srt tfc tfcd rest n = tfcd n"
  by (induction rest arbitrary: tfcd) auto

lemma tfcd_loop_member:
  "distinct (map LanguageColor.Name rest) \<Longrightarrow> lang \<in> set rest \<Longrightarrow>
   tfcd_loop srt tfc tfcd rest (LanguageColor.Name lang) =
     Some (srt (diffs_loop lang [] tfc) (\<lambda>i j. Diff i < Diff j))"
proof (induction rest arbitrary: tfcd)
  case Nil
  then show ?case by simp
next
  case (Cons x rest)
  show ?case
  proof (cases "lang = x")
    case True
    then have "LanguageColor.Name lang \<notin> LanguageColor.Name ` set rest"
      using Cons.prems(1) by simp
    then show ?thesis using True by (simp add: tfcd_loop_other)
  next
    case False
    then have "lang \<in> set rest" using Cons.prems(2) by simp
    moreover have "distinct (map LanguageColor.Name rest)" using Cons.prems(1) by simp
    ultimately show ?thesis using Cons.IH by simp
  qed
qed

lemma dom_tfcd_loop:
  "dom (tfcd_loop srt tfc tfcd rest) = dom tfcd \<union> LanguageColor.Name ` set rest"
  by (induction rest arbitrary: tfcd) auto

lemma render_eq:
  "render t tfcd langs =
     filter (\<lambda>(lang, filtered). filtered \<noteq> [])
       (map (\<lambda>lang. (lang, filtered_loop t [] (index_tfcd tfcd lang))) langs)"
  by (induction langs) (auto simp: Let_def)

lemma mset_insert_less: "mset (insert_less lessf x xs) = add_mset x (mset xs)"
  by (induction xs) auto

lemma set_insert_less: "set (insert_less lessf x xs) = insert x (set xs)"
  by (induction xs) auto

lemma mset_insertion_sort: "mset (insertion_sort xs lessf) = mset xs"
  by (induction xs) (auto simp: mset_insert_less)

lemma sorted_insert_less:
  assumes "strict_weak_order lessf"
    and "sorted_wrt (\<lambda>a b. \<not> lessf b a) xs"
  shows "sorted_wrt (\<lambda>a b. \<not> lessf b a) (insert_less lessf x xs)"
  using assms(2)
proof (induction xs)
  case Nil
  then show ?case by simp
next
  case (Cons y ys)
  have irr: "\<not> lessf a a" for a using assms(1) unfolding strict_weak_order_def by blast
  have tr: "lessf a b \<Longrightarrow> lessf b c \<Longrightarrow> lessf a c" for a b c
    using assms(1) unfolding strict_weak_order_def by blast
  show ?case
  proof (cases "lessf x y")
    case True
    have "\<not> lessf y x" using True tr irr by blast
    moreover have "\<not> lessf z x" if "z \<in> set ys" for z
    proof
      assume "lessf z x"
      then have "lessf z y" using True tr by blast
      then show False using Cons.prems that by simp
    qed
    ultimately show ?thesis using True Cons.prems by simp
  next
    case False
    then show ?thesis using Cons by (auto simp: set_insert_less)
  qed
qed

lemma sorted_insertion_sort:
  "strict_weak_order lessf \<Longrightarrow> sorted_wrt (\<lambda>a b. \<not> lessf b a) (insertion_sort xs lessf)"
  by (induction xs) (auto simp: sorted_insert_less)

lemma insertion_sort_contract: "sort_Slice_contract insertion_sort"
  unfolding sort_Slice_contract_def
  by (simp add: mset_insertion_sort sorted_insertion_sort)

lemma strict_weak_order_Diff:
  "strict_weak_order (\<lambda>i j. Diff i < (Diff j :: real))"
  unfolding strict_weak_order_def by auto

lemma takeWhile_longest_prefix:
  "prefix p xs \<Longrightarrow> \<forall>x \<in> set p. P x \<Longrightarrow> prefix p (takeWhile P xs)"
proof -
  assume "prefix p xs" and a: "\<forall>x \<in> set p. P x"
  then obtain r where "xs = p @ r" by (auto simp: prefix_def)
  then show ?thesis using a by simp
qed

lemma rank_member:
  assumes "sort_Slice_contract srt"
    and "distinct (map LanguageColor.Name tfc)"
    and "lang \<in> set tfc"
  shows "rank srt tfc (LanguageColor.Name lang) =
           Some (srt (diffs_loop lang [] tfc) (\<lambda>i j. Diff i < Diff j))"
    and "mset (srt (diffs_loop lang [] tfc) (\<lambda>i j. Diff i < Diff j)) =
           image_mset (\<lambda>c. \<lparr>LanguageColorDiff.Name = LanguageColor.Name c,
                            Diff = CIE94Diff (LanguageColor.Color lang) (LanguageColor.Color c)\<rparr>)
             (mset tfc - {#lang#})"
proof -
  show "rank srt tfc (LanguageColor.Name lang) =
          Some (srt (diffs_loop lang [] tfc) (\<lambda>i j. Diff i < Diff j))"
    unfolding rank_def using assms(2,3) by (rule tfcd_loop_member)
  have same: "LanguageColor.Name c = LanguageColor.Name lang \<longleftrightarrow> c = lang" if "c \<in> set tfc" for c
    using assms(2,3) that by (auto simp: distinct_map inj_on_def)
  have dt: "distinct tfc" using assms(2) by (simp add: distinct_map)
  have e1: "filter (\<lambda>c. LanguageColor.Name c \<noteq> LanguageColor.Name lang) tfc =
            filter (\<lambda>c. lang \<noteq> c) tfc"
    by (rule filter_cong) (use same in auto)
  have e2: "filter (\<lambda>c. lang \<noteq> c) tfc = remove1 lang tfc"
    using dt by (simp add: distinct_remove1_removeAll removeAll_filter_not_eq)
  have f: "mset (filter (\<lambda>c. LanguageColor.Name c \<noteq> LanguageColor.Name lang) tfc) =
           mset tfc - {#lang#}"
    unfolding e1 e2 by simp
  have "mset (srt (diffs_loop lang [] tfc) (\<lambda>i j. Diff i < Diff j)) =
          mset (diffs_loop lang [] tfc)"
    using assms(1)[unfolded sort_Slice_contract_def, THEN spec, THEN spec,
      of "diffs_loop lang [] tfc" "\<lambda>i j. Diff i < Diff j"] by simp
  then show "mset (srt (diffs_loop lang [] tfc) (\<lambda>i j. Diff i < Diff j)) =
           image_mset (\<lambda>c. \<lparr>LanguageColorDiff.Name = LanguageColor.Name c,
                            Diff = CIE94Diff (LanguageColor.Color lang) (LanguageColor.Color c)\<rparr>)
             (mset tfc - {#lang#})"
    using f by (simp add: diffs_loop_eq)
qed

lemma rank_ascending:
  assumes "sort_Slice_contract srt"
  shows "ascending (srt (dfs :: real LanguageColorDiff list) (\<lambda>i j. Diff i < Diff j))"
proof -
  note c = assms[unfolded sort_Slice_contract_def, THEN spec, THEN spec,
      of dfs "\<lambda>i j. Diff i < Diff j"]
  then have "sorted_wrt (\<lambda>a b. \<not> Diff b < Diff a) (srt dfs (\<lambda>i j. Diff i < Diff j))"
    using strict_weak_order_Diff by blast
  then show ?thesis unfolding ascending_def .
qed

lemma rank_names:
  assumes "sort_Slice_contract srt"
    and "distinct (map LanguageColor.Name tfc)"
    and "lang \<in> set tfc"
  shows "mset (map LanguageColorDiff.Name (srt (diffs_loop lang [] tfc) (\<lambda>i j. Diff i < Diff j))) =
           mset (map LanguageColor.Name tfc) - {#LanguageColor.Name lang#}"
proof -
  let ?dfs = "srt (diffs_loop lang [] tfc) (\<lambda>i j. Diff i < Diff j)"
  have "mset (map LanguageColorDiff.Name ?dfs) = image_mset LanguageColorDiff.Name (mset ?dfs)"
    by simp
  also have "\<dots> = image_mset LanguageColor.Name (mset tfc - {#lang#})"
    unfolding rank_member(2)[OF assms] by (simp add: image_mset.compositionality comp_def)
  also have "\<dots> = mset (map LanguageColor.Name tfc) - {#LanguageColor.Name lang#}"
    using assms(3) by (simp add: image_mset_Diff)
  finally show ?thesis .
qed

section \<open>Rounding and the operations on float64\<close>

lemma rne_ge_floor: "\<lfloor>y\<rfloor> \<le> rne y"
  by (simp add: rne_def Let_def)

lemma rne_le_int: "y \<le> of_int n \<Longrightarrow> rne y \<le> n"
proof -
  assume a: "y \<le> of_int n"
  have "\<lfloor>y\<rfloor> \<le> \<lfloor>real_of_int n\<rfloor>" using a by (rule floor_mono)
  then have f: "\<lfloor>y\<rfloor> \<le> n" by simp
  show ?thesis
  proof (cases "y = of_int \<lfloor>y\<rfloor>")
    case True
    then have "rne y = \<lfloor>y\<rfloor>" by (simp add: rne_def Let_def)
    then show ?thesis using f by simp
  next
    case False
    then have "of_int \<lfloor>y\<rfloor> < y" using of_int_floor_le[of y] by linarith
    then have "of_int \<lfloor>y\<rfloor> < (of_int n :: real)" using a by linarith
    then have "\<lfloor>y\<rfloor> < n" by simp
    moreover have "rne y \<le> \<lfloor>y\<rfloor> + 1" by (simp add: rne_def Let_def)
    ultimately show ?thesis by linarith
  qed
qed

lemma ulp64_pos: "0 < ulp64 x"
  by (simp add: ulp64_def)

lemma round64_0: "round64 0 = 0"
  by (simp add: round64_def)

lemma round64_minus: "round64 (- x) = - round64 x"
  by (simp add: round64_def ulp64_def sgn_minus)

lemma round64_nonneg: "0 \<le> x \<Longrightarrow> 0 \<le> round64 x"
proof -
  assume a: "0 \<le> x"
  have "0 \<le> \<bar>x\<bar> / ulp64 x" using ulp64_pos[of x] by simp
  then have "0 \<le> \<lfloor>\<bar>x\<bar> / ulp64 x\<rfloor>" by simp
  then have "0 \<le> rne (\<bar>x\<bar> / ulp64 x)" using rne_ge_floor[of "\<bar>x\<bar> / ulp64 x"] by linarith
  then show ?thesis using a ulp64_pos[of x] by (simp add: round64_def sgn_if)
qed

lemma round64_le_pow2:
  assumes "0 \<le> x" and "x \<le> 2 ^ k"
  shows "round64 x \<le> 2 ^ k"
proof (cases "x = 0")
  case True
  then show ?thesis by (simp add: round64_0)
next
  case False
  then have xp: "0 < x" using assms(1) by simp
  let ?e = "max \<lfloor>log 2 \<bar>x\<bar>\<rfloor> (- 1022)"
  have "x \<le> 2 powr (real k)" using assms(2) by (simp add: powr_realpow)
  then have "log 2 x \<le> real k" using xp by (simp add: log_le_iff)
  then have "\<lfloor>log 2 x\<rfloor> \<le> \<lfloor>real k\<rfloor>" by (rule floor_mono)
  then have "\<lfloor>log 2 x\<rfloor> \<le> int k" by simp
  then have ek: "?e \<le> int k" using xp by simp
  define d where "d = nat (int k - ?e + 52)"
  have dd: "int d = int k - ?e + 52" using ek unfolding d_def by simp
  have u: "ulp64 x * 2 ^ d = 2 ^ k"
  proof -
    have "ulp64 x * 2 ^ d = 2 powr (of_int ?e - 52) * 2 powr (real d)"
      by (simp add: ulp64_def powr_realpow)
    also have "\<dots> = 2 powr (of_int ?e - 52 + real d)" by (simp add: powr_add)
    also have "of_int ?e - 52 + real d = real k"
    proof -
      have "real d = real_of_int (int d)" by simp
      also have "\<dots> = real_of_int (int k - ?e + 52)" unfolding dd ..
      finally show ?thesis by simp
    qed
    finally show ?thesis by (simp add: powr_realpow)
  qed
  have "\<bar>x\<bar> / ulp64 x \<le> 2 ^ k / ulp64 x"
    using assms xp ulp64_pos[of x] by (simp add: divide_right_mono)
  also have "2 ^ k / ulp64 x = 2 ^ d" using u ulp64_pos[of x] by (simp add: field_simps)
  finally have "\<bar>x\<bar> / ulp64 x \<le> of_int (2 ^ d)" by simp
  then have "rne (\<bar>x\<bar> / ulp64 x) \<le> 2 ^ d" by (rule rne_le_int)
  then have "real_of_int (rne (\<bar>x\<bar> / ulp64 x)) \<le> 2 ^ d"
    by (metis of_int_le_iff of_int_numeral of_int_power)
  then have "ulp64 x * of_int (rne (\<bar>x\<bar> / ulp64 x)) \<le> ulp64 x * 2 ^ d"
    using ulp64_pos[of x] by simp
  then show ?thesis using xp u by (simp add: round64_def)
qed

lemma round64_ge_powr2:
  assumes "2 powr (of_int k) \<le> x" and "- 1022 \<le> k"
  shows "2 powr (of_int k) \<le> round64 x"
proof -
  have xp: "0 < x" using assms(1) powr_gt_zero[of 2 "of_int k"] by linarith
  let ?l = "\<lfloor>log 2 x\<rfloor>"
  have "of_int k \<le> log 2 x" using assms(1) xp by (simp add: le_log_iff)
  then have kl: "k \<le> ?l" by (simp add: le_floor_iff)
  then have e: "max \<lfloor>log 2 \<bar>x\<bar>\<rfloor> (- 1022) = ?l" using xp assms(2) by simp
  have u: "ulp64 x = 2 powr (of_int ?l - 52)" using e by (simp add: ulp64_def)
  have lx: "2 powr (of_int ?l) \<le> x"
    by (rule iffD1[OF le_log_iff]) (use xp in simp_all)
  have "2 powr (of_int ?l) / ulp64 x = 2 powr 52" unfolding u by (simp add: powr_diff)
  also have "\<dots> = 2 ^ 52" by simp
  finally have q: "2 powr (of_int ?l) / ulp64 x = 2 ^ 52" .
  have "2 ^ 52 \<le> \<bar>x\<bar> / ulp64 x"
    using lx xp ulp64_pos[of x] unfolding q[symmetric] by (simp add: divide_right_mono)
  then have "of_int (2 ^ 52) \<le> \<bar>x\<bar> / ulp64 x" by simp
  then have "2 ^ 52 \<le> \<lfloor>\<bar>x\<bar> / ulp64 x\<rfloor>" by (simp only: le_floor_iff)
  then have "2 ^ 52 \<le> rne (\<bar>x\<bar> / ulp64 x)" using rne_ge_floor[of "\<bar>x\<bar> / ulp64 x"] by linarith
  then have "(2::real) ^ 52 \<le> of_int (rne (\<bar>x\<bar> / ulp64 x))"
    by (metis of_int_le_iff of_int_numeral of_int_power)
  then have "ulp64 x * 2 ^ 52 \<le> ulp64 x * of_int (rne (\<bar>x\<bar> / ulp64 x))"
    using ulp64_pos[of x] by simp
  moreover have "ulp64 x * 2 ^ 52 = 2 powr (of_int ?l)"
    using q ulp64_pos[of x] by (simp add: field_simps)
  ultimately have "2 powr (of_int ?l) \<le> round64 x" using xp by (simp add: round64_def)
  moreover have "(2::real) powr (of_int k) \<le> 2 powr (of_int ?l)" using kl by simp
  ultimately show ?thesis by linarith
qed

lemma round64_1: "round64 1 = 1"
proof -
  have "2 powr (of_int 0) \<le> round64 1" by (rule round64_ge_powr2) simp_all
  moreover have "round64 1 \<le> 2 ^ 0" by (rule round64_le_pow2) simp_all
  ultimately show ?thesis by simp
qed

lemma round64_abs_le_pow2: "\<bar>r\<bar> \<le> 2 ^ k \<Longrightarrow> \<bar>round64 r\<bar> \<le> 2 ^ k"
proof (cases "0 \<le> r")
  case True
  assume "\<bar>r\<bar> \<le> 2 ^ k"
  then have "round64 r \<le> 2 ^ k" using True by (intro round64_le_pow2) simp_all
  then show ?thesis using round64_nonneg[OF True] by simp
next
  case False
  assume "\<bar>r\<bar> \<le> 2 ^ k"
  then have "round64 (- r) \<le> 2 ^ k" using False by (intro round64_le_pow2) simp_all
  moreover have "0 \<le> round64 (- r)" using False by (intro round64_nonneg) simp
  ultimately show ?thesis by (simp add: round64_minus)
qed

lemma overflow64_gt_1: "1 < overflow64"
  unfolding overflow64_def by (rule one_less_power) simp_all

lemma f64_const_0: "f64_const 0 = Finite 0"
  using overflow64_gt_1 by (simp add: f64_const_def of_real64_def round64_0)

lemma f64_const_1: "f64_const 1 = Finite 1"
  using overflow64_gt_1 by (simp add: f64_const_def of_real64_def round64_1)

lemma f64_const_wL: "f64_const wL = Finite 1"
  by (simp add: wL_def f64_const_1)

lemma f64_const_wC: "f64_const wC = Finite 1"
  by (simp add: wC_def f64_const_1)

lemma f64_const_wH: "f64_const wH = Finite 1"
  by (simp add: wH_def f64_const_1)

lemma of_real64_bnd:
  assumes "\<bar>r\<bar> \<le> 2 ^ k" and "k \<le> 1023"
  shows "bnd k (of_real64 r)" and "val64 (of_real64 r) = round64 r"
proof -
  have q: "\<bar>round64 r\<bar> \<le> 2 ^ k" using assms(1) by (rule round64_abs_le_pow2)
  have "(2::real) ^ k < overflow64"
    unfolding overflow64_def by (rule power_strict_increasing) (use assms(2) in simp_all)
  then have lt: "\<bar>round64 r\<bar> < overflow64" using q by linarith
  then show "val64 (of_real64 r) = round64 r" by (auto simp: of_real64_def Let_def)
  then show "bnd k (of_real64 r)" using q lt by (auto simp: bnd_def of_real64_def Let_def)
qed

lemma overflow64_pos: "0 < overflow64"
  using overflow64_gt_1 by linarith

lemma of_real64_nonneg: "0 \<le> r \<Longrightarrow> nonneg64 (of_real64 r)"
  using round64_nonneg[of r] overflow64_pos
  by (auto simp: of_real64_def nonneg64_def Let_def)

lemma round64_ge_1: "1 \<le> r \<Longrightarrow> 1 \<le> round64 r"
  using round64_ge_powr2[of 0 r] by simp

lemma of_real64_ge_one: "1 \<le> r \<Longrightarrow> ge_one64 (of_real64 r)"
  using round64_ge_1[of r] overflow64_pos
  by (auto simp: of_real64_def ge_one64_def Let_def)

lemma f64_add_NaN [simp]: "f64_add x NaN = NaN" "f64_add NaN y = NaN"
  by (simp_all add: f64_add_def)

lemma f64_mul_NaN [simp]: "f64_mul x NaN = NaN" "f64_mul NaN y = NaN"
  by (simp_all add: f64_mul_def)

lemma f64_div_NaN [simp]: "f64_div x NaN = NaN" "f64_div NaN y = NaN"
  by (simp_all add: f64_div_def)

lemma f64_sub_NaN [simp]: "f64_sub x NaN = NaN" "f64_sub NaN y = NaN"
  by (simp_all add: f64_sub_def)

lemma f64_sub_self: "is_finite x \<Longrightarrow> f64_sub x x = Finite 0"
  by (cases x) (auto simp: f64_sub_def f64_add_def zero_of_def)

lemma f64_sub_PosInf: "f64_sub PosInf PosInf = NaN"
  by (simp add: f64_sub_def f64_add_def)

lemma f64_mul_zero: "f64_mul (Finite 0) (Finite 0) = Finite 0"
  by (simp add: f64_mul_def zero_of_def)

lemma f64_add_zero: "f64_add (Finite 0) (Finite 0) = Finite 0"
  by (simp add: f64_add_def zero_of_def)

lemma f64_sub_zero: "f64_sub (Finite 0) (Finite 0) = Finite 0"
  by (simp add: f64_sub_self)

lemma f64_mul_self_nonneg: "is_finite x \<Longrightarrow> nonneg64 (f64_mul x x)"
proof (cases x)
  case (Finite r)
  show ?thesis
  proof (cases "r = 0")
    case True
    then show ?thesis using Finite by (simp add: f64_mul_def zero_of_def nonneg64_def)
  next
    case False
    then have "f64_mul x x = of_real64 (r * r)" using Finite by (simp add: f64_mul_def)
    then show ?thesis using of_real64_nonneg[of "r * r"] by simp
  qed
qed (simp_all add: f64_mul_def zero_of_def nonneg64_def)

lemma f64_add_nonneg: "nonneg64 x \<Longrightarrow> nonneg64 y \<Longrightarrow> nonneg64 (f64_add x y)"
proof -
  assume x: "nonneg64 x" and y: "nonneg64 y"
  show ?thesis
  proof (cases "x = PosInf \<or> y = PosInf")
    case True
    then show ?thesis using x y by (auto simp: nonneg64_def f64_add_def)
  next
    case False
    then obtain p q where p: "x = Finite p" "0 \<le> p" and q: "y = Finite q" "0 \<le> q"
      using x y by (auto simp: nonneg64_def)
    show ?thesis
    proof (cases "p + q = 0")
      case True
      then show ?thesis using p q by (simp add: f64_add_def zero_of_def nonneg64_def)
    next
      case False
      then have "f64_add x y = of_real64 (p + q)" using p q by (simp add: f64_add_def)
      then show ?thesis using of_real64_nonneg[of "p + q"] p q by simp
    qed
  qed
qed

lemma math_Sqrt_nonneg: "nonneg64 x \<Longrightarrow> nonneg64 (math_Sqrt x)"
proof -
  assume x: "nonneg64 x"
  show ?thesis
  proof (cases "x = PosInf")
    case True
    then show ?thesis by (simp add: nonneg64_def)
  next
    case False
    then obtain p where p: "x = Finite p" "0 \<le> p" using x by (auto simp: nonneg64_def)
    show ?thesis
    proof (cases "p = 0")
      case True
      then show ?thesis using p by (simp add: nonneg64_def)
    next
      case False
      then have "math_Sqrt x = of_real64 (sqrt p)" using p by simp
      then show ?thesis using of_real64_nonneg[of "sqrt p"] p by simp
    qed
  qed
qed

lemma f64_mul_pos_nonneg:
  "0 < c \<Longrightarrow> nonneg64 y \<Longrightarrow> nonneg64 (f64_mul (Finite c) y)"
proof -
  assume c: "0 < c" and y: "nonneg64 y"
  show ?thesis
  proof (cases "y = PosInf")
    case True
    then show ?thesis using c by (simp add: f64_mul_def inf_of_def nonneg64_def)
  next
    case False
    then obtain q where q: "y = Finite q" "0 \<le> q" using y by (auto simp: nonneg64_def)
    show ?thesis
    proof (cases "q = 0")
      case True
      then show ?thesis using q c by (simp add: f64_mul_def zero_of_def nonneg64_def)
    next
      case False
      then have "f64_mul (Finite c) y = of_real64 (c * q)" using q c by (simp add: f64_mul_def)
      then show ?thesis using of_real64_nonneg[of "c * q"] q c by simp
    qed
  qed
qed

lemma f64_add_one_ge_one: "nonneg64 y \<Longrightarrow> ge_one64 (f64_add (Finite 1) y)"
proof -
  assume y: "nonneg64 y"
  show ?thesis
  proof (cases "y = PosInf")
    case True
    then show ?thesis by (simp add: f64_add_def ge_one64_def)
  next
    case False
    then obtain q where q: "y = Finite q" "0 \<le> q" using y by (auto simp: nonneg64_def)
    then have "f64_add (Finite 1) y = of_real64 (1 + q)" by (simp add: f64_add_def)
    then show ?thesis using of_real64_ge_one[of "1 + q"] q by simp
  qed
qed

lemma f64_mul_one_ge_one: "ge_one64 s \<Longrightarrow> ge_one64 (f64_mul (Finite 1) s)"
proof -
  assume s: "ge_one64 s"
  show ?thesis
  proof (cases "s = PosInf")
    case True
    then show ?thesis by (simp add: f64_mul_def inf_of_def ge_one64_def)
  next
    case False
    then obtain q where q: "s = Finite q" "1 \<le> q" using s by (auto simp: ge_one64_def)
    then have "f64_mul (Finite 1) s = of_real64 q" by (simp add: f64_mul_def)
    then show ?thesis using of_real64_ge_one[of q] q by simp
  qed
qed

lemma f64_div_zero_ge_one: "ge_one64 d \<Longrightarrow> f64_div (Finite 0) d = Finite 0"
  by (auto simp: ge_one64_def f64_div_def zero_of_def)

lemma powr_minus_7: "(2::real) powr (of_int (- 7)) = 1 / 128"
proof -
  have "(2::real) powr (- 7) = inverse (2 powr 7)" by (rule powr_minus)
  also have "\<dots> = 1 / 128" by simp
  finally show ?thesis by simp
qed

lemma f64_const_pos:
  assumes "1 / 128 \<le> r" and "r \<le> 1"
  shows "\<exists>q. 0 < q \<and> q \<le> 1 \<and> f64_const r = Finite q"
proof -
  have "2 powr (of_int (- 7)) \<le> r" unfolding powr_minus_7 using assms(1) .
  then have "2 powr (of_int (- 7)) \<le> round64 r" by (rule round64_ge_powr2) simp
  moreover have "(0::real) < 2 powr (of_int (- 7))" by simp
  ultimately have p: "0 < round64 r" by linarith
  have "r \<le> 2 ^ 0" using assms(2) by simp
  moreover have "0 \<le> r" using assms(1) by linarith
  ultimately have "round64 r \<le> 2 ^ 0" by (intro round64_le_pow2)
  then have u: "round64 r \<le> 1" by simp
  then have "f64_const r = Finite (round64 r)"
    using p overflow64_gt_1 by (simp add: f64_const_def of_real64_def Let_def)
  then show ?thesis using p u by blast
qed

lemma chroma_nonneg:
  "is_finite a \<Longrightarrow> is_finite b \<Longrightarrow>
   nonneg64 (math_Sqrt (f64_add (f64_mul a a) (f64_mul b b)))"
  by (intro math_Sqrt_nonneg f64_add_nonneg f64_mul_self_nonneg)

lemma scale_ge_one:
  assumes "1 / 128 \<le> r" and "r \<le> 1" and "nonneg64 xC1"
  shows "ge_one64 (f64_mul (Finite 1) (f64_add (f64_const 1) (f64_mul (f64_const r) xC1)))"
proof -
  obtain q where q: "0 < q" "f64_const r = Finite q" using f64_const_pos[OF assms(1,2)] by blast
  have "nonneg64 (f64_mul (Finite q) xC1)" using q(1) assms(3) by (rule f64_mul_pos_nonneg)
  then have "ge_one64 (f64_add (Finite 1) (f64_mul (Finite q) xC1))" by (rule f64_add_one_ge_one)
  then have "ge_one64 (f64_mul (Finite 1) (f64_add (Finite 1) (f64_mul (Finite q) xC1)))"
    by (rule f64_mul_one_ge_one)
  then show ?thesis using q(2) by (simp add: f64_const_1)
qed

lemma self_difference_finite_chroma:
  assumes "is_finite (L c)" and "is_finite (A c)" and "is_finite (LAB.B c)"
    and "is_finite (math_Sqrt (f64_add (f64_mul (A c) (A c)) (f64_mul (LAB.B c) (LAB.B c))))"
  shows "CIE94Diff_float64 c c = Finite 0"
proof -
  let ?xC = "math_Sqrt (f64_add (f64_mul (A c) (A c)) (f64_mul (LAB.B c) (LAB.B c)))"
  have n: "nonneg64 ?xC" using assms(2,3) by (rule chroma_nonneg)
  have k1: "(1::real) / 128 \<le> 0.045" "(0.045::real) \<le> 1" by simp_all
  have k2: "(1::real) / 128 \<le> 0.015" "(0.015::real) \<le> 1" by simp_all
  have sc: "f64_div (Finite 0) (f64_mul (f64_const wC) (f64_add (f64_const 1) (f64_mul (f64_const 0.045) ?xC))) = Finite 0"
    unfolding f64_const_wC using k1 n by (intro f64_div_zero_ge_one scale_ge_one)
  have sh: "f64_div (Finite 0) (f64_mul (f64_const wH) (f64_add (f64_const 1) (f64_mul (f64_const 0.015) ?xC))) = Finite 0"
    unfolding f64_const_wH using k2 n by (intro f64_div_zero_ge_one scale_ge_one)
  have gt: "f64_gt (Finite 0) (Finite 0) = False" by (simp add: f64_gt_def f64_lt_def)
  have c10: "f64_const wL = Finite 1" by (rule f64_const_wL)
  have d1: "f64_div (Finite 0) (f64_const wL) = Finite 0"
    unfolding c10 by (simp add: f64_div_def zero_of_def)
  have sL: "f64_sub (L c) (L c) = Finite 0" using assms(1) by (rule f64_sub_self)
  have sA: "f64_sub (A c) (A c) = Finite 0" using assms(2) by (rule f64_sub_self)
  have sB: "f64_sub (LAB.B c) (LAB.B c) = Finite 0" using assms(3) by (rule f64_sub_self)
  have sC: "f64_sub ?xC ?xC = Finite 0" using assms(4) by (rule f64_sub_self)
  have sq0: "math_Sqrt (Finite 0) = Finite 0" by simp
  show ?thesis
    unfolding CIE94Diff_float64_def Let_def
    by (simp only: sL sA sB sC f64_mul_zero f64_add_zero f64_sub_zero sq0 f64_const_0 gt
        if_False sc sh d1)
qed

lemma pow2_lt_overflow64: "k \<le> 1023 \<Longrightarrow> (2::real) ^ k < overflow64"
  unfolding overflow64_def by (rule power_strict_increasing) simp_all

lemma of_real64_pbnd:
  assumes "0 \<le> r" and "r \<le> 2 ^ k" and "k \<le> 1023"
  shows "pbnd k (of_real64 r)"
proof -
  have u: "round64 r \<le> 2 ^ k" using assms(1,2) by (rule round64_le_pow2)
  have l: "0 \<le> round64 r" using assms(1) by (rule round64_nonneg)
  have "round64 r < overflow64" using u pow2_lt_overflow64[OF assms(3)] by linarith
  then have "of_real64 r = Finite (round64 r)"
    using l assms(1) overflow64_pos by (simp add: of_real64_def Let_def)
  then show ?thesis using u l by (simp add: pbnd_def)
qed

lemma of_real64_dvs:
  assumes "1 \<le> r" and "r \<le> 2 ^ k" and "k \<le> 1023"
  shows "dvs k (of_real64 r)"
proof -
  have "pbnd k (of_real64 r)" using assms by (intro of_real64_pbnd) simp_all
  moreover have "ge_one64 (of_real64 r)" using assms(1) by (rule of_real64_ge_one)
  ultimately show ?thesis by (auto simp: pbnd_def dvs_def ge_one64_def)
qed

lemma pbnd_bnd: "pbnd k x \<Longrightarrow> bnd k x"
  by (auto simp: pbnd_def bnd_def)

lemma bnd_mono: "bnd k x \<Longrightarrow> k \<le> k' \<Longrightarrow> bnd k' x"
proof -
  assume b: "bnd k x" and "k \<le> k'"
  then have "(2::real) ^ k \<le> 2 ^ k'" by (simp add: power_increasing)
  then show ?thesis using b unfolding bnd_def by linarith
qed

lemma pbnd_mono: "pbnd k x \<Longrightarrow> k \<le> k' \<Longrightarrow> pbnd k' x"
proof -
  assume b: "pbnd k x" and "k \<le> k'"
  then have m: "(2::real) ^ k \<le> 2 ^ k'" by (simp add: power_increasing)
  obtain q where q: "x = Finite q" "0 \<le> q" "q \<le> 2 ^ k" using b unfolding pbnd_def by blast
  have "q \<le> 2 ^ k'" using q(3) m by linarith
  then show ?thesis using q unfolding pbnd_def by blast
qed

lemma bnd_zero_of: "bnd k (zero_of s)"
  by (simp add: bnd_def zero_of_def)

lemma bnd_not_special: "bnd k x \<Longrightarrow> x \<noteq> NaN \<and> \<not> is_inf x"
  by (cases x) (simp_all add: bnd_def)

lemma bnd_neg: "bnd k x \<Longrightarrow> bnd k (f64_neg x)"
  by (cases x) (simp_all add: bnd_def)

lemma bnd_add:
  assumes "bnd k x" and "bnd k y" and "k < 1023"
  shows "bnd (Suc k) (f64_add x y)"
proof -
  have s: "x \<noteq> NaN" "y \<noteq> NaN" "\<not> is_inf x" "\<not> is_inf y"
    using assms(1,2) bnd_not_special by blast+
  have "\<bar>val64 x + val64 y\<bar> \<le> 2 ^ k + 2 ^ k" using assms(1,2) unfolding bnd_def by linarith
  then have r: "\<bar>val64 x + val64 y\<bar> \<le> 2 ^ Suc k" by simp
  show ?thesis
  proof (cases "val64 x + val64 y = 0")
    case True
    then show ?thesis using s by (simp add: f64_add_def bnd_zero_of)
  next
    case False
    then have "f64_add x y = of_real64 (val64 x + val64 y)" using s by (simp add: f64_add_def)
    moreover have "bnd (Suc k) (of_real64 (val64 x + val64 y))"
      using r by (rule of_real64_bnd) (use assms(3) in simp)
    ultimately show ?thesis by simp
  qed
qed

lemma bnd_sub: "bnd k x \<Longrightarrow> bnd k y \<Longrightarrow> k < 1023 \<Longrightarrow> bnd (Suc k) (f64_sub x y)"
  unfolding f64_sub_def by (intro bnd_add bnd_neg)

lemma bnd_mul:
  assumes "bnd a x" and "bnd b y" and "a + b \<le> 1023"
  shows "bnd (a + b) (f64_mul x y)"
proof -
  have s: "x \<noteq> NaN" "y \<noteq> NaN" "\<not> is_inf x" "\<not> is_inf y"
    using assms(1,2) bnd_not_special by blast+
  have "\<bar>val64 x\<bar> * \<bar>val64 y\<bar> \<le> 2 ^ a * 2 ^ b"
    using assms(1,2) unfolding bnd_def by (intro mult_mono) simp_all
  then have r: "\<bar>val64 x * val64 y\<bar> \<le> 2 ^ (a + b)" by (simp add: abs_mult power_add)
  show ?thesis
  proof (cases "val64 x * val64 y = 0")
    case True
    then show ?thesis using s by (simp add: f64_mul_def bnd_zero_of)
  next
    case False
    then have "f64_mul x y = of_real64 (val64 x * val64 y)" using s by (simp add: f64_mul_def)
    moreover have "bnd (a + b) (of_real64 (val64 x * val64 y))"
      using r assms(3) by (rule of_real64_bnd)
    ultimately show ?thesis by simp
  qed
qed

lemma pbnd_square:
  assumes "bnd a x" and "2 * a \<le> 1023"
  shows "pbnd (2 * a) (f64_mul x x)"
proof -
  have s: "x \<noteq> NaN" "\<not> is_inf x" using assms(1) bnd_not_special by blast+
  have "\<bar>val64 x\<bar> * \<bar>val64 x\<bar> \<le> 2 ^ a * 2 ^ a"
    using assms(1) unfolding bnd_def by (intro mult_mono) simp_all
  then have r: "val64 x * val64 x \<le> 2 ^ (2 * a)"
    by (simp add: power_add mult_2)
  show ?thesis
  proof (cases "val64 x * val64 x = 0")
    case True
    then show ?thesis using s by (simp add: f64_mul_def zero_of_def pbnd_def)
  next
    case False
    then have "f64_mul x x = of_real64 (val64 x * val64 x)" using s by (simp add: f64_mul_def)
    moreover have "pbnd (2 * a) (of_real64 (val64 x * val64 x))"
      using r assms(2) by (intro of_real64_pbnd) simp_all
    ultimately show ?thesis by simp
  qed
qed

lemma pbnd_add:
  assumes "pbnd k x" and "pbnd k y" and "k < 1023"
  shows "pbnd (Suc k) (f64_add x y)"
proof -
  obtain p q where p: "x = Finite p" "0 \<le> p" "p \<le> 2 ^ k" and q: "y = Finite q" "0 \<le> q" "q \<le> 2 ^ k"
    using assms(1,2) by (auto simp: pbnd_def)
  have r: "p + q \<le> 2 ^ Suc k" using p q by simp
  show ?thesis
  proof (cases "p + q = 0")
    case True
    then show ?thesis using p q by (simp add: f64_add_def zero_of_def pbnd_def)
  next
    case False
    then have "f64_add x y = of_real64 (p + q)" using p q by (simp add: f64_add_def)
    moreover have "pbnd (Suc k) (of_real64 (p + q))"
      using r p q assms(3) by (intro of_real64_pbnd) simp_all
    ultimately show ?thesis by simp
  qed
qed

lemma pbnd_sqrt:
  assumes "pbnd (2 * a) x" and "a \<le> 1023"
  shows "pbnd a (math_Sqrt x)"
proof -
  obtain p where p: "x = Finite p" "0 \<le> p" "p \<le> 2 ^ (2 * a)"
    using assms(1) by (auto simp: pbnd_def)
  have "sqrt p \<le> sqrt (2 ^ (2 * a))" using p(3) by simp
  also have "sqrt ((2::real) ^ (2 * a)) = 2 ^ a"
  proof -
    have "(2::real) ^ (2 * a) = (2 ^ a)\<^sup>2" by (simp add: power_mult mult.commute)
    then show ?thesis by (simp only: real_sqrt_abs) simp
  qed
  finally have r: "sqrt p \<le> 2 ^ a" .
  show ?thesis
  proof (cases "p = 0")
    case True
    then show ?thesis using p by (simp add: pbnd_def)
  next
    case False
    then have "math_Sqrt x = of_real64 (sqrt p)" using p by simp
    moreover have "pbnd a (of_real64 (sqrt p))"
      using r p assms(2) by (intro of_real64_pbnd) simp_all
    ultimately show ?thesis by simp
  qed
qed

lemma bnd_div:
  assumes "bnd a x" and "dvs k y" and "a \<le> 1023"
  shows "bnd a (f64_div x y)"
proof -
  have s: "x \<noteq> NaN" "\<not> is_inf x" using assms(1) bnd_not_special by blast+
  obtain q where q: "y = Finite q" "1 \<le> q" using assms(2) by (auto simp: dvs_def)
  show ?thesis
  proof (cases "is_zero x")
    case True
    then show ?thesis using s q by (simp add: f64_div_def bnd_zero_of)
  next
    case False
    then have "f64_div x y = of_real64 (val64 x / q)" using s q by (simp add: f64_div_def)
    moreover have "\<bar>val64 x / q\<bar> \<le> \<bar>val64 x\<bar>"
      using q(2) by (simp add: divide_le_eq mult_le_cancel_left1)
    then have "\<bar>val64 x / q\<bar> \<le> 2 ^ a" using assms(1) unfolding bnd_def by linarith
    then have "bnd a (of_real64 (val64 x / q))" using assms(3) by (rule of_real64_bnd)
    ultimately show ?thesis by simp
  qed
qed

lemma dvs_scale:
  assumes "1 / 128 \<le> r" and "r \<le> 1" and "pbnd k xC1" and "k < 1023"
  shows "dvs (Suc k) (f64_mul (Finite 1) (f64_add (f64_const 1) (f64_mul (f64_const r) xC1)))"
proof -
  obtain c where c: "0 < c" "c \<le> 1" "f64_const r = Finite c"
    using f64_const_pos[OF assms(1,2)] by blast
  obtain m where m: "xC1 = Finite m" "0 \<le> m" "m \<le> 2 ^ k"
    using assms(3) by (auto simp: pbnd_def)
  have "c * m \<le> 1 * m" using c(2) m(2) by (intro mult_right_mono)
  then have cm: "c * m \<le> 2 ^ k" using m(3) by simp
  have p: "pbnd k (f64_mul (Finite c) xC1)"
  proof (cases "c * m = 0")
    case True
    then show ?thesis using m c by (simp add: f64_mul_def zero_of_def pbnd_def)
  next
    case False
    then have "f64_mul (Finite c) xC1 = of_real64 (c * m)" using m by (simp add: f64_mul_def)
    moreover have "pbnd k (of_real64 (c * m))"
      using cm c m assms(4) by (intro of_real64_pbnd) simp_all
    ultimately show ?thesis by simp
  qed
  then obtain t where t: "f64_mul (Finite c) xC1 = Finite t" "0 \<le> t" "t \<le> 2 ^ k"
    by (auto simp: pbnd_def)
  have "(1::real) \<le> 2 ^ k" by simp
  then have "1 + t \<le> 2 ^ k + 2 ^ k" using t(3) by linarith
  then have t1: "1 + t \<le> 2 ^ Suc k" by simp
  have "f64_add (Finite 1) (Finite t) = of_real64 (1 + t)" using t(2) by (simp add: f64_add_def)
  moreover have "dvs (Suc k) (of_real64 (1 + t))"
    using t1 t(2) assms(4) by (intro of_real64_dvs) simp_all
  ultimately have "dvs (Suc k) (f64_add (Finite 1) (f64_mul (Finite c) xC1))" using t(1) by simp
  then obtain w where w: "f64_add (Finite 1) (f64_mul (Finite c) xC1) = Finite w" "1 \<le> w" "w \<le> 2 ^ Suc k"
    by (auto simp: dvs_def)
  have "f64_mul (Finite 1) (Finite w) = of_real64 w" using w(2) by (simp add: f64_mul_def)
  moreover have "dvs (Suc k) (of_real64 w)"
    using w assms(4) by (intro of_real64_dvs) simp_all
  ultimately have "dvs (Suc k) (f64_mul (Finite 1) (f64_add (Finite 1) (f64_mul (Finite c) xC1)))"
    using w(1) by simp
  then show ?thesis using c(3) f64_const_1 by simp
qed

lemma math_Sqrt_range:
  "math_Sqrt x = NaN \<or> math_Sqrt x = NegZero \<or> nonneg64 (math_Sqrt x)"
proof (cases x)
  case (Finite r)
  show ?thesis
  proof (cases "r \<le> 0")
    case True
    then show ?thesis using Finite by (auto simp: nonneg64_def)
  next
    case False
    then have "math_Sqrt x = of_real64 (sqrt r)" using Finite by simp
    then show ?thesis using of_real64_nonneg[of "sqrt r"] False by simp
  qed
qed (simp_all add: nonneg64_def)

lemma math_Sqrt_not_negative: "\<not> f64_lt (math_Sqrt x) (Finite 0)"
  using math_Sqrt_range[of x] by (auto simp: f64_lt_def nonneg64_def)

lemma math_Sqrt_ge_zero_iff: "f64_ge (math_Sqrt x) (Finite 0) \<longleftrightarrow> math_Sqrt x \<noteq> NaN"
  using math_Sqrt_range[of x] by (auto simp: f64_ge_def nonneg64_def)

lemma difference_is_sqrt: "\<exists>z. CIE94Diff_float64 c1 c2 = math_Sqrt z"
  unfolding CIE94Diff_float64_def Let_def by blast

lemma scale_PosInf:
  assumes "1 / 128 \<le> r" and "r \<le> 1"
  shows "f64_mul (Finite 1) (f64_add (f64_const 1) (f64_mul (f64_const r) PosInf)) = PosInf"
proof -
  obtain q where q: "0 < q" "f64_const r = Finite q" using f64_const_pos[OF assms] by blast
  have "f64_mul (Finite q) PosInf = PosInf" using q(1) by (simp add: f64_mul_def inf_of_def)
  moreover have "f64_add (Finite 1) PosInf = PosInf" by (simp add: f64_add_def)
  moreover have "f64_mul (Finite 1) PosInf = PosInf" by (simp add: f64_mul_def inf_of_def)
  ultimately show ?thesis using q(2) f64_const_1 by simp
qed

lemma difference_NaN_chroma_overflow:
  assumes "is_finite (A c1)" and "is_finite (LAB.B c1)" and "is_finite (A c2)" and "is_finite (LAB.B c2)"
    and "\<not> is_finite (chroma64 c1)"
  shows "CIE94Diff_float64 c1 c2 = NaN"
proof -
  let ?xC1 = "math_Sqrt (f64_add (f64_mul (A c1) (A c1)) (f64_mul (LAB.B c1) (LAB.B c1)))"
  let ?xC2 = "math_Sqrt (f64_add (f64_mul (A c2) (A c2)) (f64_mul (LAB.B c2) (LAB.B c2)))"
  have "nonneg64 ?xC1" using assms(1,2) by (rule chroma_nonneg)
  then have x1: "?xC1 = PosInf" using assms(5) by (auto simp: nonneg64_def chroma64_def)
  have x2: "nonneg64 ?xC2" using assms(3,4) by (rule chroma_nonneg)
  have k1: "(1::real) / 128 \<le> 0.045" "(0.045::real) \<le> 1" by simp_all
  have sc: "f64_mul (f64_const wC) (f64_add (f64_const 1) (f64_mul (f64_const 0.045) ?xC1)) = PosInf"
    unfolding x1 f64_const_wC using k1 by (rule scale_PosInf)
  have "f64_sub ?xC2 PosInf = NaN \<or> f64_sub ?xC2 PosInf = NegInf"
    using x2 by (auto simp: nonneg64_def f64_sub_def f64_add_def)
  then have "f64_div (f64_sub ?xC2 PosInf) PosInf = NaN"
    by (auto simp: f64_div_def)
  then have d: "f64_div (f64_sub ?xC2 ?xC1)
      (f64_mul (f64_const wC) (f64_add (f64_const 1) (f64_mul (f64_const 0.045) ?xC1))) = NaN"
    unfolding sc unfolding x1 .
  show ?thesis
    unfolding CIE94Diff_float64_def Let_def
    by (simp only: d f64_mul_NaN f64_add_NaN math_Sqrt.simps)
qed

lemma chroma64_pbnd:
  assumes "bnd a (A c)" and "bnd a (LAB.B c)" and "2 * a < 1023"
  shows "pbnd (Suc a) (chroma64 c)"
proof -
  have "pbnd (2 * a) (f64_mul (A c) (A c))" using assms(1,3) by (intro pbnd_square) simp_all
  moreover have "pbnd (2 * a) (f64_mul (LAB.B c) (LAB.B c))" using assms(2,3) by (intro pbnd_square) simp_all
  ultimately have "pbnd (Suc (2 * a)) (f64_add (f64_mul (A c) (A c)) (f64_mul (LAB.B c) (LAB.B c)))"
    using assms(3) by (intro pbnd_add) simp_all
  then have "pbnd (2 * Suc a) (f64_add (f64_mul (A c) (A c)) (f64_mul (LAB.B c) (LAB.B c)))"
    by (rule pbnd_mono) simp
  then show ?thesis unfolding chroma64_def using assms(3) by (intro pbnd_sqrt) simp_all
qed

lemma pbnd_is_finite: "pbnd k x \<Longrightarrow> is_finite x"
  by (auto simp: pbnd_def)

lemma bnd_is_finite: "bnd k x \<Longrightarrow> is_finite x"
  by (simp add: bnd_def)

lemma f64_gt_zero_pbnd: "bnd k x \<Longrightarrow> f64_gt x (Finite 0) \<Longrightarrow> pbnd k x"
  by (cases x) (auto simp: bnd_def pbnd_def f64_gt_def f64_lt_def)

lemma difference_bounded:
  assumes "bnd 500 (L c1)" and "bnd 500 (A c1)" and "bnd 500 (LAB.B c1)"
    and "bnd 500 (L c2)" and "bnd 500 (A c2)" and "bnd 500 (LAB.B c2)"
  shows "pbnd 504 (CIE94Diff_float64 c1 c2)"
proof -
  let ?xC1 = "math_Sqrt (f64_add (f64_mul (A c1) (A c1)) (f64_mul (LAB.B c1) (LAB.B c1)))"
  let ?xC2 = "math_Sqrt (f64_add (f64_mul (A c2) (A c2)) (f64_mul (LAB.B c2) (LAB.B c2)))"
  let ?xDL = "f64_sub (L c2) (L c1)"
  let ?xDC = "f64_sub ?xC2 ?xC1"
  let ?xDE = "math_Sqrt (f64_add (f64_add
                      (f64_mul (f64_sub (L c1) (L c2)) (f64_sub (L c1) (L c2)))
                      (f64_mul (f64_sub (A c1) (A c2)) (f64_sub (A c1) (A c2))))
                      (f64_mul (f64_sub (LAB.B c1) (LAB.B c2)) (f64_sub (LAB.B c1) (LAB.B c2))))"
  let ?xDH0 = "f64_sub (f64_sub (f64_mul ?xDE ?xDE) (f64_mul ?xDL ?xDL)) (f64_mul ?xDC ?xDC)"
  let ?xDH1 = "if f64_gt ?xDH0 (f64_const 0) then math_Sqrt ?xDH0 else f64_const 0"
  let ?SC = "f64_mul (f64_const wC) (f64_add (f64_const 1) (f64_mul (f64_const 0.045) ?xC1))"
  let ?SH = "f64_mul (f64_const wH) (f64_add (f64_const 1) (f64_mul (f64_const 0.015) ?xC1))"
  let ?dL = "f64_div ?xDL (f64_const wL)"
  let ?dC = "f64_div ?xDC ?SC"
  let ?dH = "f64_div ?xDH1 ?SH"
  have c1: "pbnd 501 ?xC1"
    using chroma64_pbnd[of 500 c1] assms(2,3) by (simp add: chroma64_def)
  have c2: "pbnd 501 ?xC2"
    using chroma64_pbnd[of 500 c2] assms(5,6) by (simp add: chroma64_def)
  have xDL: "bnd 501 ?xDL" using bnd_sub[OF assms(4) assms(1)] by simp
  have xDC: "bnd 502 ?xDC" using bnd_sub[OF pbnd_bnd[OF c2] pbnd_bnd[OF c1]] by simp
  have sL: "pbnd 1002 (f64_mul (f64_sub (L c1) (L c2)) (f64_sub (L c1) (L c2)))"
    using pbnd_square[of 501, OF bnd_sub[OF assms(1) assms(4), simplified]] by simp
  have sA: "pbnd 1002 (f64_mul (f64_sub (A c1) (A c2)) (f64_sub (A c1) (A c2)))"
    using pbnd_square[of 501, OF bnd_sub[OF assms(2) assms(5), simplified]] by simp
  have sB: "pbnd 1002 (f64_mul (f64_sub (LAB.B c1) (LAB.B c2)) (f64_sub (LAB.B c1) (LAB.B c2)))"
    using pbnd_square[of 501, OF bnd_sub[OF assms(3) assms(6), simplified]] by simp
  have "pbnd 1003 (f64_add (f64_mul (f64_sub (L c1) (L c2)) (f64_sub (L c1) (L c2)))
                      (f64_mul (f64_sub (A c1) (A c2)) (f64_sub (A c1) (A c2))))"
    using pbnd_add[OF sL sA] by simp
  then have "pbnd 1004 (f64_add (f64_add
                      (f64_mul (f64_sub (L c1) (L c2)) (f64_sub (L c1) (L c2)))
                      (f64_mul (f64_sub (A c1) (A c2)) (f64_sub (A c1) (A c2))))
                      (f64_mul (f64_sub (LAB.B c1) (LAB.B c2)) (f64_sub (LAB.B c1) (LAB.B c2))))"
    using pbnd_add[of 1003, OF _ pbnd_mono[OF sB, of 1003]] by simp
  then have xDE: "pbnd 502 ?xDE" using pbnd_sqrt[of 502] by simp
  have e2: "bnd 1004 (f64_mul ?xDE ?xDE)"
    using bnd_mul[OF pbnd_bnd[OF xDE] pbnd_bnd[OF xDE]] by simp
  have l2: "bnd 1004 (f64_mul ?xDL ?xDL)"
    using bnd_mono[OF bnd_mul[OF xDL xDL], of 1004] by simp
  have c2': "bnd 1005 (f64_mul ?xDC ?xDC)"
    using bnd_mono[OF bnd_mul[OF xDC xDC], of 1005] by simp
  have "bnd 1005 (f64_sub (f64_mul ?xDE ?xDE) (f64_mul ?xDL ?xDL))"
    using bnd_sub[OF e2 l2] by simp
  then have h0: "bnd 1006 ?xDH0" using bnd_sub[OF _ c2'] by simp
  have h1: "pbnd 503 ?xDH1"
  proof (cases "f64_gt ?xDH0 (f64_const 0)")
    case True
    then have "pbnd 1006 ?xDH0" using h0 f64_gt_zero_pbnd by (simp add: f64_const_0)
    then have "pbnd 503 (math_Sqrt ?xDH0)" using pbnd_sqrt[of 503] by simp
    then show ?thesis using True by simp
  next
    case False
    then show ?thesis by (simp add: f64_const_0 pbnd_def)
  qed
  have k1: "(1::real) / 128 \<le> 0.045" "(0.045::real) \<le> 1" by simp_all
  have k2: "(1::real) / 128 \<le> 0.015" "(0.015::real) \<le> 1" by simp_all
  have SC: "dvs 502 ?SC" using dvs_scale[OF k1 c1] by (simp add: f64_const_wC)
  have SH: "dvs 502 ?SH" using dvs_scale[OF k2 c1] by (simp add: f64_const_wH)
  have one: "dvs 0 (f64_const wL)" by (simp add: f64_const_wL dvs_def)
  have dL: "bnd 501 ?dL" using bnd_div[OF xDL one] by simp
  have dC: "bnd 502 ?dC" using bnd_div[OF xDC SC] by simp
  have dH: "bnd 503 ?dH" using bnd_div[OF pbnd_bnd[OF h1] SH] by simp
  have qL: "pbnd 1006 (f64_mul ?dL ?dL)"
    using pbnd_mono[OF pbnd_square[OF dL], of 1006] by simp
  have qC: "pbnd 1006 (f64_mul ?dC ?dC)"
    using pbnd_mono[OF pbnd_square[OF dC], of 1006] by simp
  have qH: "pbnd 1007 (f64_mul ?dH ?dH)"
    using pbnd_mono[OF pbnd_square[OF dH], of 1007] by simp
  have "pbnd 1007 (f64_add (f64_mul ?dL ?dL) (f64_mul ?dC ?dC))"
    using pbnd_add[OF qL qC] by simp
  then have "pbnd 1008 (f64_add (f64_add (f64_mul ?dL ?dL) (f64_mul ?dC ?dC)) (f64_mul ?dH ?dH))"
    using pbnd_add[OF _ qH] by simp
  then have "pbnd 504 (math_Sqrt
      (f64_add (f64_add (f64_mul ?dL ?dL) (f64_mul ?dC ?dC)) (f64_mul ?dH ?dH)))"
    using pbnd_sqrt[of 504] by simp
  then show ?thesis unfolding CIE94Diff_float64_def Let_def .
qed

lemma of_real64_overflow: "overflow64 \<le> r \<Longrightarrow> of_real64 r = PosInf"
proof -
  assume a: "overflow64 \<le> r"
  have p: "(2::real) powr (of_int 1024) = overflow64"
    unfolding overflow64_def by simp
  have "2 powr (of_int 1024) \<le> round64 r"
    by (rule round64_ge_powr2) (use a p in simp_all)
  then have "overflow64 \<le> round64 r" unfolding p .
  then show ?thesis by (simp add: of_real64_def Let_def)
qed

lemma chroma64_huge:
  "chroma64 \<lparr>L = Finite 0, A = Finite (2 ^ 600), B = Finite 0\<rparr> = PosInf"
proof -
  have "overflow64 \<le> (2::real) ^ 600 * 2 ^ 600" unfolding overflow64_def by simp
  then have "of_real64 ((2::real) ^ 600 * 2 ^ 600) = PosInf" by (rule of_real64_overflow)
  then have "f64_mul (Finite (2 ^ 600)) (Finite (2 ^ 600)) = PosInf"
    by (simp add: f64_mul_def)
  moreover have "f64_add PosInf (f64_mul (Finite 0) (Finite 0)) = PosInf"
    by (simp add: f64_mul_zero f64_add_def)
  ultimately show ?thesis by (simp add: chroma64_def)
qed

lemma f64_ge_iff_not_lt: "x \<noteq> NaN \<Longrightarrow> y \<noteq> NaN \<Longrightarrow> f64_ge x y \<longleftrightarrow> \<not> f64_lt x y"
  by (cases x; cases y) (auto simp: f64_ge_def f64_lt_def)

lemma f64_lt_trans_le:
  "x \<noteq> NaN \<Longrightarrow> y \<noteq> NaN \<Longrightarrow> \<not> f64_lt y x \<Longrightarrow> f64_lt y t \<Longrightarrow> f64_lt x t"
  by (cases x; cases y; cases t) (auto simp: f64_lt_def)

lemma filtered_loop_eq:
  "t \<noteq> NaN \<Longrightarrow> \<forall>d \<in> set dfs. Diff d \<noteq> NaN \<Longrightarrow>
   filtered_loop t filtered dfs = filtered @ takeWhile (\<lambda>d. f64_lt (Diff d) t) dfs"
  by (induction t filtered dfs rule: filtered_loop.induct) (auto simp: f64_ge_iff_not_lt)

lemma ascending64_takeWhile_filter:
  "ascending64 dfs \<Longrightarrow> \<forall>d \<in> set dfs. Diff d \<noteq> NaN \<Longrightarrow>
   takeWhile (\<lambda>d. f64_lt (Diff d) t) dfs = filter (\<lambda>d. f64_lt (Diff d) t) dfs"
  unfolding ascending64_def
proof (induction dfs)
  case Nil
  then show ?case by simp
next
  case (Cons x xs)
  show ?case
  proof (cases "f64_lt (Diff x) t")
    case True
    then show ?thesis using Cons by simp
  next
    case False
    have "\<not> f64_lt (Diff y) t" if y: "y \<in> set xs" for y
    proof
      assume "f64_lt (Diff y) t"
      moreover have "\<not> f64_lt (Diff y) (Diff x)" using Cons.prems(1) y by simp
      moreover have "Diff x \<noteq> NaN" "Diff y \<noteq> NaN" using Cons.prems(2) y by simp_all
      ultimately have "f64_lt (Diff x) t" using f64_lt_trans_le by blast
      then show False using False by simp
    qed
    then have "filter (\<lambda>d. f64_lt (Diff d) t) xs = []" by (simp add: filter_empty_conv)
    then show ?thesis using False by simp
  qed
qed

section \<open>Claims on the color conversions\<close>

text \<open>
  Claim C1. \<^verbatim>\<open>HexToRGB\<close> is claimed to succeed exactly on the strings of seven
  characters that start with \<^verbatim>\<open>#\<close> and continue with six hexadecimal digits, and to
  reject every seven-character string that does not start with \<^verbatim>\<open>#\<close>. The code
  checks the length, drops the first byte unread and decodes the rest: the string
  \<^verbatim>\<open>xFF0000\<close> has length 7, does not start with \<^verbatim>\<open>#\<close>, and is parsed to
  \<^verbatim>\<open>RGB{255,0,0}\<close> with a nil error, although the function's own error message names
  the form \<^verbatim>\<open>#RRGGBB\<close>.
\<close>

theorem HexToRGB_accepts_without_hash:
  "length ''xFF0000'' = 7 \<and> hd ''xFF0000'' \<noteq> CHR ''#'' \<and>
   HexToRGB ''xFF0000'' = (\<lparr>R = 255, G = 0, B = 0\<rparr>, None)"
  by (simp add: HexToRGB_def DecodeString_def reverseHexTable_def Let_def)

text \<open>
  Claim C10. \<^verbatim>\<open>HexToRGB\<close> never inspects the first character: a string of length 7
  whose last six characters are hexadecimal digits is parsed to the three bytes those six
  characters denote, two strings that differ in the first character only have the same
  result, and whenever the error is not nil the RGB value returned is the zero value.
\<close>

theorem HexToRGB_first_char_unchecked:
  "(length s = 7 \<and> (\<forall>c \<in> set (drop 1 s). hex_digit c) \<longrightarrow>
      HexToRGB s = (\<lparr>R = hex_byte (s ! 1) (s ! 2), G = hex_byte (s ! 3) (s ! 4),
                     B = hex_byte (s ! 5) (s ! 6)\<rparr>, None)) \<and>
   HexToRGB (c # t) = HexToRGB (c' # t) \<and>
   (snd (HexToRGB u) \<noteq> None \<longrightarrow> fst (HexToRGB u) = \<lparr>R = 0, G = 0, B = 0\<rparr>)"
proof (intro conjI impI)
  assume a: "length s = 7 \<and> (\<forall>c \<in> set (drop 1 s). hex_digit c)"
  then obtain c0 c1 c2 c3 c4 c5 c6 where s: "s = [c0, c1, c2, c3, c4, c5, c6]"
    by (auto simp: eval_nat_numeral length_Suc_conv)
  have "\<forall>c \<in> set [c1, c2, c3, c4, c5, c6]. hex_digit c" using a s by simp
  then show "HexToRGB s = (\<lparr>R = hex_byte (s ! 1) (s ! 2), G = hex_byte (s ! 3) (s ! 4),
                     B = hex_byte (s ! 5) (s ! 6)\<rparr>, None)"
    unfolding s by (simp add: HexToRGB_value)
next
  show "HexToRGB (c # t) = HexToRGB (c' # t)" by (simp add: HexToRGB_def)
next
  assume "snd (HexToRGB u) \<noteq> None"
  then show "fst (HexToRGB u) = \<lparr>R = 0, G = 0, B = 0\<rparr>" by (rule HexToRGB_failure_zero)
qed

text \<open>
  The claim's example \<^verbatim>\<open>0FF0000\<close>, its twin \<^verbatim>\<open>#FF0000\<close>, and the failing
  \<^verbatim>\<open>#GG0000\<close>.
\<close>

theorem HexToRGB_first_char_unchecked_witness:
  "HexToRGB ''0FF0000'' = (\<lparr>R = 255, G = 0, B = 0\<rparr>, None) \<and>
   HexToRGB ''0FF0000'' = HexToRGB ''#FF0000'' \<and>
   snd (HexToRGB ''#GG0000'') \<noteq> None \<and>
   fst (HexToRGB ''#GG0000'') = \<lparr>R = 0, G = 0, B = 0\<rparr>"
proof -
  have h1: "length ''0FF0000'' = 7 \<and> (\<forall>c \<in> set (drop 1 ''0FF0000''). hex_digit c)"
    by (simp add: hex_digit_def)
  have h2: "snd (HexToRGB ''#GG0000'') \<noteq> None"
    by (simp add: HexToRGB_def DecodeString_def reverseHexTable_def Let_def)
  have v: "hex_byte CHR ''F'' CHR ''F'' = 255 \<and> hex_byte CHR ''0'' CHR ''0'' = 0"
    by (simp add: hex_byte_def reverseHexTable_def)
  note t = HexToRGB_first_char_unchecked
    [of "''0FF0000''" "CHR ''0''" "''FF0000''" "CHR ''#''" "''#GG0000''"]
  have a: "HexToRGB ''0FF0000'' = (\<lparr>R = 255, G = 0, B = 0\<rparr>, None)"
    using t h1 v by simp
  have b: "HexToRGB ''0FF0000'' = HexToRGB ''#FF0000''"
    using t by blast
  have c: "fst (HexToRGB ''#GG0000'') = \<lparr>R = 0, G = 0, B = 0\<rparr>"
    using t h2 by blast
  show ?thesis using a b c h2 by blast
qed

text \<open>
  Claim C4. \<^verbatim>\<open>RGBToXYZ\<close> has no failure case (it is a total function whose result
  type has no error) and is the conversion of the specification: every channel divided
  by 255, expanded by the inverse sRGB gamma, scaled by 100, then the fixed matrix.
\<close>

theorem RGBToXYZ_matches_spec: "RGBToXYZ c = spec_rgbToXYZ c"
  by (simp add: RGBToXYZ_def spec_rgbToXYZ_def RGBToXYZ_Norm_def spec_gamma_def Let_def
      mult.commute)

text \<open>
  Claim C5. \<^verbatim>\<open>XYZToLAB\<close> has no failure case and is the conversion of the
  specification: every component divided by the reference white 93.369, 100.000, 98.636,
  the nonlinearity \<open>f\<close> applied, and \<open>L = 116 f(Y) - 16\<close>, \<open>A = 500 (f(X) - f(Y))\<close>,
  \<open>B = 200 (f(Y) - f(Z))\<close>.
\<close>

theorem XYZToLAB_matches_spec: "XYZToLAB c = spec_xyzToLAB c"
  by (simp add: XYZToLAB_def spec_xyzToLAB_def XYZToLAB_Norm_def spec_f_def Let_def
      rX_def rY_def rZ_def)

section \<open>Claims on the CIE94 difference\<close>

text \<open>
  Claim C3. \<^verbatim>\<open>CIE94Diff\<close> is the CIE94 difference as the specification words it,
  with \<open>kL = kC = kH = 1\<close>, the hue term clamped to 0 when its square is not positive,
  and \<open>SC\<close>, \<open>SH\<close> taken from the chroma of the first argument.
\<close>

theorem CIE94Diff_matches_spec: "CIE94Diff c1 c2 = spec_cie94 c1 c2"
  by (simp add: CIE94Diff_def spec_cie94_def Let_def wL_def wC_def wH_def
      kL_def kC_def kH_def power2_eq_square)

text \<open>
  In the exact reading the difference of a color to itself is 0 and no difference is
  negative.
\<close>

lemma CIE94Diff_exact_self: "CIE94Diff c c = 0"
  by (simp add: CIE94Diff_def Let_def)

lemma CIE94Diff_exact_nonneg: "0 \<le> CIE94Diff c1 c2"
  unfolding CIE94Diff_def Let_def by (rule real_sqrt_ge_zero) simp







section \<open>Claims on the ranking and the filter\<close>



text \<open>
  Claim C2. Entries whose color does not parse are dropped before the ranking and nothing
  aborts (the ranking is a total function): the ranking equals the ranking of the input
  without those entries, its keys are exactly the names whose color parses, and the names
  inside the list of a key are exactly the other names whose color parses, so a name with
  an unparsable color is neither a key nor inside any list.
\<close>

theorem ranking_drops_unparsable:
  assumes "sort_Slice_contract srt" and "distinct (map fst languages)"
  shows "ranking_of srt languages =
           ranking_of srt (filter (\<lambda>(lang, data). parses data) languages) \<and>
         dom (ranking_of srt languages) =
           {lang. \<exists>data. (lang, data) \<in> set languages \<and> parses data} \<and>
         (\<forall>lang dfs. ranking_of srt languages lang = Some dfs \<longrightarrow>
            set (map LanguageColorDiff.Name dfs) =
              {other. \<exists>data. (other, data) \<in> set languages \<and> parses data} - {lang})"
proof -
  let ?mk = "\<lambda>(lang, data). \<lparr>LanguageColor.Name = lang,
                   Color = XYZToLAB (RGBToXYZ (fst (HexToRGB (Language.Color data))))\<rparr>"
  let ?ok = "\<lambda>(lang, data). parses data"
  let ?tfc = "tfc_loop [] languages"
  let ?valid = "{lang. \<exists>data. (lang, data) \<in> set languages \<and> parses data}"
  have gen: "tfc_loop [] ls = map ?mk (filter ?ok ls)" for ls
    by (simp add: tfc_loop_eq parses_def)
  have tfc: "?tfc = map ?mk (filter ?ok languages)"
    by (rule gen)
  have names: "map LanguageColor.Name ?tfc = map fst (filter ?ok languages)"
    unfolding tfc by (simp add: comp_def case_prod_beta)
  have dn: "distinct (map LanguageColor.Name ?tfc)"
    unfolding names using assms(2) by (rule distinct_map_filter)
  have sn: "LanguageColor.Name ` set ?tfc = ?valid"
  proof -
    have "LanguageColor.Name ` set ?tfc = set (map LanguageColor.Name ?tfc)" by simp
    also have "\<dots> = fst ` set (filter ?ok languages)" unfolding names by simp
    also have "\<dots> = ?valid" by force
    finally show ?thesis .
  qed
  have c1: "ranking_of srt languages = ranking_of srt (filter ?ok languages)"
    unfolding ranking_of_def gen by simp
  have c2: "dom (ranking_of srt languages) = ?valid"
    unfolding ranking_of_def rank_def dom_tfcd_loop using sn by simp
  have c3: "set (map LanguageColorDiff.Name dfs) = ?valid - {lang}"
    if r: "ranking_of srt languages lang = Some dfs" for lang dfs
  proof -
    have "lang \<in> dom (ranking_of srt languages)" using r by blast
    then have "lang \<in> LanguageColor.Name ` set ?tfc" unfolding c2 sn .
    then obtain l where l: "l \<in> set ?tfc" "LanguageColor.Name l = lang" by auto
    have "rank srt ?tfc (LanguageColor.Name l) =
        Some (srt (diffs_loop l [] ?tfc) (\<lambda>i j. Diff i < Diff j))"
      using assms(1) dn l(1) by (rule rank_member(1))
    then have dfs: "dfs = srt (diffs_loop l [] ?tfc) (\<lambda>i j. Diff i < Diff j)"
      using r l(2) unfolding ranking_of_def by simp
    have "mset (map LanguageColorDiff.Name dfs) =
            mset (map LanguageColor.Name ?tfc) - {#LanguageColor.Name l#}"
      unfolding dfs using assms(1) dn l(1) by (rule rank_names)
    also have "\<dots> = mset (remove1 lang (map LanguageColor.Name ?tfc))"
      using l(2) by simp
    finally have "set (map LanguageColorDiff.Name dfs) =
        set (remove1 lang (map LanguageColor.Name ?tfc))"
      by (rule mset_eq_setD)
    also have "\<dots> = set (map LanguageColor.Name ?tfc) - {lang}"
      using dn by (rule set_remove1_eq)
    also have "\<dots> = ?valid - {lang}" using sn by simp
    finally show ?thesis .
  qed
  show ?thesis using c1 c2 c3 by blast
qed

text \<open>
  The example of the specification with a third, valid entry.
\<close>

theorem ranking_drops_unparsable_witness:
  "sort_Slice_contract
     (insertion_sort :: real LanguageColorDiff list \<Rightarrow> _ \<Rightarrow> real LanguageColorDiff list) \<and>
   distinct (map fst [(''A'', \<lparr>Language.Color = ''#FF0000''\<rparr>),
                      (''B'', \<lparr>Language.Color = ''notacolor''\<rparr>),
                      (''C'', \<lparr>Language.Color = ''#00FF00''\<rparr>)]) \<and>
   ranking_of insertion_sort
     [(''A'', \<lparr>Language.Color = ''#FF0000''\<rparr>), (''B'', \<lparr>Language.Color = ''notacolor''\<rparr>),
      (''C'', \<lparr>Language.Color = ''#00FF00''\<rparr>)] =
   ranking_of insertion_sort
     [(''A'', \<lparr>Language.Color = ''#FF0000''\<rparr>), (''C'', \<lparr>Language.Color = ''#00FF00''\<rparr>)] \<and>
   dom (ranking_of insertion_sort
     [(''A'', \<lparr>Language.Color = ''#FF0000''\<rparr>), (''B'', \<lparr>Language.Color = ''notacolor''\<rparr>),
      (''C'', \<lparr>Language.Color = ''#00FF00''\<rparr>)]) = {''A'', ''C''} \<and>
   (\<exists>dfs. ranking_of insertion_sort
     [(''A'', \<lparr>Language.Color = ''#FF0000''\<rparr>), (''B'', \<lparr>Language.Color = ''notacolor''\<rparr>),
      (''C'', \<lparr>Language.Color = ''#00FF00''\<rparr>)] ''A'' = Some dfs \<and>
      set (map LanguageColorDiff.Name dfs) = {''C''})"
proof -
  let ?ls = "[(''A'', \<lparr>Language.Color = ''#FF0000''\<rparr>), (''B'', \<lparr>Language.Color = ''notacolor''\<rparr>),
      (''C'', \<lparr>Language.Color = ''#00FF00''\<rparr>)]"
  have h: "distinct (map fst ?ls)" by simp
  have p: "parses \<lparr>Language.Color = ''#FF0000''\<rparr>" "\<not> parses \<lparr>Language.Color = ''notacolor''\<rparr>"
    "parses \<lparr>Language.Color = ''#00FF00''\<rparr>"
    by (simp_all add: parses_def HexToRGB_def DecodeString_def reverseHexTable_def Let_def)
  have v: "{lang. \<exists>data. (lang, data) \<in> set ?ls \<and> parses data} = {''A'', ''C''}"
    using p by auto
  have f: "filter (\<lambda>(lang, data). parses data) ?ls =
      [(''A'', \<lparr>Language.Color = ''#FF0000''\<rparr>), (''C'', \<lparr>Language.Color = ''#00FF00''\<rparr>)]"
    using p by simp
  note t = ranking_drops_unparsable[OF insertion_sort_contract h]
  have a: "ranking_of insertion_sort ?ls =
    ranking_of insertion_sort
     [(''A'', \<lparr>Language.Color = ''#FF0000''\<rparr>), (''C'', \<lparr>Language.Color = ''#00FF00''\<rparr>)]"
    using t[THEN conjunct1] unfolding f .
  have b: "dom (ranking_of insertion_sort ?ls) = {''A'', ''C''}"
    using t[THEN conjunct2, THEN conjunct1] unfolding v .
  then obtain dfs where r: "ranking_of insertion_sort ?ls ''A'' = Some dfs" by blast
  have "set (map LanguageColorDiff.Name dfs) = {''A'', ''C''} - {''A''}"
    using t[THEN conjunct2, THEN conjunct2, rule_format, OF r] unfolding v .
  then have c: "set (map LanguageColorDiff.Name dfs) = {''C''}" by auto
  show ?thesis using insertion_sort_contract h a b r c by blast
qed

text \<open>
  Claim C7, as stated: for every threshold the filtered list is the longest prefix whose
  entries are all below the threshold. It fails for the threshold NaN, which
  \<^verbatim>\<open>-threshold NaN\<close> passes in: \<^verbatim>\<open>diff.Diff >= NaN\<close> is never true, so every
  entry is kept although none is below NaN. It fails in the same way for an entry whose
  \<^verbatim>\<open>Diff\<close> is NaN, which is kept under every threshold.
\<close>

theorem filtered_NaN_counterexample:
  "ascending64 [\<lparr>LanguageColorDiff.Name = ''B'', Diff = Finite 1\<rparr>] \<and>
   filtered_loop NaN [] [\<lparr>LanguageColorDiff.Name = ''B'', Diff = Finite 1\<rparr>] =
     [\<lparr>LanguageColorDiff.Name = ''B'', Diff = Finite 1\<rparr>] \<and>
   \<not> f64_lt (Finite 1) NaN \<and>
   ascending64 [\<lparr>LanguageColorDiff.Name = ''B'', Diff = NaN\<rparr>] \<and>
   filtered_loop (Finite 10) [] [\<lparr>LanguageColorDiff.Name = ''B'', Diff = NaN\<rparr>] =
     [\<lparr>LanguageColorDiff.Name = ''B'', Diff = NaN\<rparr>] \<and>
   \<not> f64_lt NaN (Finite 10)"
  by (simp add: ascending64_def f64_ge_def f64_lt_def)

text \<open>
  Claim C7, amended. For a list ascending by \<^verbatim>\<open>Diff\<close> in which no \<^verbatim>\<open>Diff\<close> is NaN
  and a threshold that is not NaN (the infinities included), the filter loop stops at the
  first entry whose \<^verbatim>\<open>Diff\<close> is not below the threshold (an entry equal to the
  threshold is excluded); its result is a prefix of the list with every entry below the
  threshold, every such prefix is a prefix of it, and it holds every entry of the list
  below the threshold. The rendering keeps, in the order of \<^verbatim>\<open>langs\<close>, exactly the
  names whose filtered list is not empty.
\<close>

theorem filtered_longest_prefix:
  assumes "ascending64 dfs"
    and "diffThreshold \<noteq> NaN"
    and "\<forall>d \<in> set dfs. Diff d \<noteq> NaN"
  shows "filtered_loop diffThreshold [] dfs = takeWhile (\<lambda>d. f64_lt (Diff d) diffThreshold) dfs \<and>
         prefix (filtered_loop diffThreshold [] dfs) dfs \<and>
         (\<forall>d \<in> set (filtered_loop diffThreshold [] dfs). f64_lt (Diff d) diffThreshold) \<and>
         (\<forall>p. prefix p dfs \<and> (\<forall>d \<in> set p. f64_lt (Diff d) diffThreshold) \<longrightarrow>
              prefix p (filtered_loop diffThreshold [] dfs)) \<and>
         filtered_loop diffThreshold [] dfs = filter (\<lambda>d. f64_lt (Diff d) diffThreshold) dfs \<and>
         render diffThreshold tfcd langs =
           filter (\<lambda>(lang, filtered). filtered \<noteq> [])
             (map (\<lambda>lang. (lang, filtered_loop diffThreshold [] (index_tfcd tfcd lang))) langs)"
proof -
  let ?t = diffThreshold
  have e: "filtered_loop ?t [] dfs = takeWhile (\<lambda>d. f64_lt (Diff d) ?t) dfs"
    using assms(2,3) by (simp add: filtered_loop_eq)
  have p: "prefix (filtered_loop ?t [] dfs) dfs"
    unfolding e by (metis takeWhile_dropWhile_id prefixI)
  have b: "\<forall>d \<in> set (filtered_loop ?t [] dfs). f64_lt (Diff d) ?t"
    unfolding e by (auto dest: set_takeWhileD)
  have l: "\<forall>p. prefix p dfs \<and> (\<forall>d \<in> set p. f64_lt (Diff d) ?t) \<longrightarrow>
      prefix p (filtered_loop ?t [] dfs)"
    unfolding e using takeWhile_longest_prefix by blast
  have f: "filtered_loop ?t [] dfs = filter (\<lambda>d. f64_lt (Diff d) ?t) dfs"
    unfolding e using assms(1,3) by (rule ascending64_takeWhile_filter)
  show ?thesis using e p b l f render_eq by blast
qed

text \<open>
  Threshold 10: the entry with \<^verbatim>\<open>Diff\<close> 10 ends the loop; \<^verbatim>\<open>C\<close> (nothing below
  the threshold) and \<^verbatim>\<open>E\<close> (no key of the ranking) are not rendered.
\<close>

theorem filtered_longest_prefix_witness:
  "ascending64 [\<lparr>LanguageColorDiff.Name = ''B'', Diff = Finite 1\<rparr>,
                \<lparr>LanguageColorDiff.Name = ''C'', Diff = Finite 10\<rparr>,
                \<lparr>LanguageColorDiff.Name = ''D'', Diff = PosInf\<rparr>] \<and>
   filtered_loop (Finite 10) [] [\<lparr>LanguageColorDiff.Name = ''B'', Diff = Finite 1\<rparr>,
                \<lparr>LanguageColorDiff.Name = ''C'', Diff = Finite 10\<rparr>,
                \<lparr>LanguageColorDiff.Name = ''D'', Diff = PosInf\<rparr>] =
     [\<lparr>LanguageColorDiff.Name = ''B'', Diff = Finite 1\<rparr>] \<and>
   render (Finite 10)
     [''A'' \<mapsto> [\<lparr>LanguageColorDiff.Name = ''B'', Diff = Finite 1\<rparr>,
                 \<lparr>LanguageColorDiff.Name = ''C'', Diff = Finite 10\<rparr>,
                 \<lparr>LanguageColorDiff.Name = ''D'', Diff = PosInf\<rparr>],
      ''C'' \<mapsto> [\<lparr>LanguageColorDiff.Name = ''A'', Diff = Finite 10\<rparr>]]
     [''A'', ''C'', ''E''] =
     [(''A'', [\<lparr>LanguageColorDiff.Name = ''B'', Diff = Finite 1\<rparr>])]"
proof -
  let ?dfs = "[\<lparr>LanguageColorDiff.Name = ''B'', Diff = Finite 1\<rparr>,
                \<lparr>LanguageColorDiff.Name = ''C'', Diff = Finite 10\<rparr>,
                \<lparr>LanguageColorDiff.Name = ''D'', Diff = PosInf\<rparr>]"
  let ?tfcd = "[''A'' \<mapsto> ?dfs, ''C'' \<mapsto> [\<lparr>LanguageColorDiff.Name = ''A'', Diff = Finite 10\<rparr>]]"
  have h1: "ascending64 ?dfs" by (simp add: ascending64_def f64_lt_def)
  have h2: "Finite 10 \<noteq> NaN" by simp
  have h3: "\<forall>d \<in> set ?dfs. Diff d \<noteq> NaN" by simp
  note t = filtered_longest_prefix[OF h1 h2 h3, of ?tfcd "[''A'', ''C'', ''E'']"]
  have "filtered_loop (Finite 10) [] ?dfs = takeWhile (\<lambda>d. f64_lt (Diff d) (Finite 10)) ?dfs"
    using t by blast
  then have a: "filtered_loop (Finite 10) [] ?dfs = [\<lparr>LanguageColorDiff.Name = ''B'', Diff = Finite 1\<rparr>]"
    by (simp add: f64_lt_def)
  have "render (Finite 10) ?tfcd [''A'', ''C'', ''E''] =
      filter (\<lambda>(lang, filtered). filtered \<noteq> [])
             (map (\<lambda>lang. (lang, filtered_loop (Finite 10) [] (index_tfcd ?tfcd lang)))
                [''A'', ''C'', ''E''])"
    using t by blast
  then have b: "render (Finite 10) ?tfcd [''A'', ''C'', ''E''] =
     [(''A'', [\<lparr>LanguageColorDiff.Name = ''B'', Diff = Finite 1\<rparr>])]"
    by (simp add: index_tfcd_def f64_ge_def)
  show ?thesis using h1 a b by blast
qed

end
